theory Spec2Isabelle
  imports Complex_Main
begin

section \<open>JavaScript numbers\<close>

text \<open>
  A JavaScript \<^verbatim>\<open>number\<close> is modelled as an exact real, one of the two infinities, or NaN.
  Overflow to infinity and the sign of zero are not modelled: the single zero is read as
  \<^verbatim>\<open>+0\<close> (every divisor of this program that can be zero is a square root, a count, or a sum
  started from \<^verbatim>\<open>0\<close>, none of which is \<^verbatim>\<open>-0\<close>). The operations below are exact on finite
  values; the rounding that every operation on binary64 numbers performs is added as a
  separate step, \<open>rounded\<close>, in the section on the standardizer, whose zero test depends on it.
\<close>

datatype jsnum = Fin real | PInf | NInf | NaN

fun jsneg :: "jsnum \<Rightarrow> jsnum" where
  "jsneg (Fin x) = Fin (- x)"
| "jsneg PInf = NInf"
| "jsneg NInf = PInf"
| "jsneg NaN = NaN"

fun jsadd :: "jsnum \<Rightarrow> jsnum \<Rightarrow> jsnum" where
  "jsadd (Fin x) (Fin y) = Fin (x + y)"
| "jsadd NaN _ = NaN"
| "jsadd _ NaN = NaN"
| "jsadd PInf NInf = NaN"
| "jsadd NInf PInf = NaN"
| "jsadd PInf _ = PInf"
| "jsadd _ PInf = PInf"
| "jsadd NInf _ = NInf"
| "jsadd _ NInf = NInf"

definition jssub :: "jsnum \<Rightarrow> jsnum \<Rightarrow> jsnum" where
  "jssub a b = jsadd a (jsneg b)"

text \<open>The infinity with the sign of \<open>x\<close>; NaN when \<open>x\<close> is zero.\<close>

definition signed_inf :: "real \<Rightarrow> jsnum" where
  "signed_inf x = (if 0 < x then PInf else if x < 0 then NInf else NaN)"

fun jsmul :: "jsnum \<Rightarrow> jsnum \<Rightarrow> jsnum" where
  "jsmul (Fin x) (Fin y) = Fin (x * y)"
| "jsmul NaN _ = NaN"
| "jsmul _ NaN = NaN"
| "jsmul PInf (Fin y) = signed_inf y"
| "jsmul NInf (Fin y) = signed_inf (- y)"
| "jsmul (Fin x) PInf = signed_inf x"
| "jsmul (Fin x) NInf = signed_inf (- x)"
| "jsmul PInf PInf = PInf"
| "jsmul PInf NInf = NInf"
| "jsmul NInf PInf = NInf"
| "jsmul NInf NInf = PInf"

fun jsdiv :: "jsnum \<Rightarrow> jsnum \<Rightarrow> jsnum" where
  "jsdiv (Fin x) (Fin y) = (if y \<noteq> 0 then Fin (x / y) else signed_inf x)"
| "jsdiv NaN _ = NaN"
| "jsdiv _ NaN = NaN"
| "jsdiv (Fin x) PInf = Fin 0"
| "jsdiv (Fin x) NInf = Fin 0"
| "jsdiv PInf (Fin y) = (if 0 \<le> y then PInf else NInf)"
| "jsdiv NInf (Fin y) = (if 0 \<le> y then NInf else PInf)"
| "jsdiv PInf PInf = NaN"
| "jsdiv PInf NInf = NaN"
| "jsdiv NInf PInf = NaN"
| "jsdiv NInf NInf = NaN"

fun jssqrt :: "jsnum \<Rightarrow> jsnum" where
  "jssqrt (Fin x) = (if 0 \<le> x then Fin (sqrt x) else NaN)"
| "jssqrt PInf = PInf"
| "jssqrt NInf = NaN"
| "jssqrt NaN = NaN"

text \<open>The comparison \<^verbatim>\<open>a < b\<close>: false whenever an operand is NaN.\<close>

fun jslt :: "jsnum \<Rightarrow> jsnum \<Rightarrow> bool" where
  "jslt (Fin x) (Fin y) = (x < y)"
| "jslt NaN _ = False"
| "jslt _ NaN = False"
| "jslt _ NInf = False"
| "jslt PInf _ = False"
| "jslt NInf _ = True"
| "jslt _ PInf = True"

text \<open>Strict equality \<^verbatim>\<open>a === b\<close> of two numbers: NaN equals nothing.\<close>

definition jseq :: "jsnum \<Rightarrow> jsnum \<Rightarrow> bool" where
  "jseq a b = (a \<noteq> NaN \<and> a = b)"

definition jsle :: "jsnum \<Rightarrow> jsnum \<Rightarrow> bool" where
  "jsle a b = (jslt a b \<or> jseq a b)"

text \<open>\<^verbatim>\<open>Math.min\<close> and \<^verbatim>\<open>Math.max\<close> of two numbers: NaN when an operand is NaN.\<close>

definition jsmin :: "jsnum \<Rightarrow> jsnum \<Rightarrow> jsnum" where
  "jsmin a b = (if a = NaN \<or> b = NaN then NaN else if jslt b a then b else a)"

definition jsmax :: "jsnum \<Rightarrow> jsnum \<Rightarrow> jsnum" where
  "jsmax a b = (if a = NaN \<or> b = NaN then NaN else if jslt a b then b else a)"

text \<open>
  Reading \<^verbatim>\<open>xs[i]\<close> of a number array in an arithmetic expression: an index past the end
  reads \<^verbatim>\<open>undefined\<close>, which arithmetic converts to NaN.
\<close>

definition rd :: "jsnum list \<Rightarrow> nat \<Rightarrow> jsnum" where
  "rd xs i = (if i < length xs then xs ! i else NaN)"

text \<open>
  Writing \<^verbatim>\<open>xs[i] = v\<close>: an index past the end extends the array (any gap is left as holes,
  which read as \<^verbatim>\<open>undefined\<close>).
\<close>

definition wr :: "jsnum list \<Rightarrow> nat \<Rightarrow> jsnum \<Rightarrow> jsnum list" where
  "wr xs i v = (if i < length xs then xs[i := v] else xs @ replicate (i - length xs) NaN @ [v])"


section \<open>Euclidean distance\<close>

text \<open>
  \<^verbatim>\<open>euclideanDistance(a, b)\<close>: the loop runs over the indices of \<open>a\<close>; the accumulator is the
  running sum of squared differences.
\<close>

definition euclideanDistance :: "jsnum list \<Rightarrow> jsnum list \<Rightarrow> jsnum" where
  "euclideanDistance a b =
     jssqrt (foldl (\<lambda>sum i. let diff = jssub (a ! i) (rd b i) in jsadd sum (jsmul diff diff))
               (Fin 0) [0..<length a])"

section \<open>Standardizer\<close>

text \<open>
  \<^verbatim>\<open>row.forEach((val, i) => { acc[i] += f(val, i) })\<close>: the accumulation of one row into
  an array of running sums.
\<close>

definition accumulate_row :: "(jsnum \<Rightarrow> nat \<Rightarrow> jsnum) \<Rightarrow> jsnum list \<Rightarrow> jsnum list \<Rightarrow> jsnum list" where
  "accumulate_row f acc row =
     foldl (\<lambda>a i. wr a i (jsadd (rd a i) (f (row ! i) i))) acc [0..<length row]"

text \<open>
  \<^verbatim>\<open>standardizeData\<close>: the column sums and means, the sums of squared deviations
  (\<^verbatim>\<open>Math.pow(x, 2)\<close> is the product of \<open>x\<close> with itself), the standard deviations with 1
  in place of 0, and the scaled rows.
\<close>

definition standardizeData :: "jsnum list list \<Rightarrow> jsnum list list" where
  "standardizeData data =
     (if length data = 0 \<or> length (data ! 0) = 0 then []
      else
        let numFeatures = length (data ! 0);
            n = Fin (real (length data));
            colsums = foldl (accumulate_row (\<lambda>val i. val)) (replicate numFeatures (Fin 0)) data;
            means = map (\<lambda>sum. jsdiv sum n) colsums;
            sqs = foldl (accumulate_row (\<lambda>val i. let dv = jssub val (rd means i) in jsmul dv dv))
                    (replicate numFeatures (Fin 0)) data;
            stds = map (\<lambda>sum. let s = jssqrt (jsdiv sum n) in if jseq s (Fin 0) then Fin 1 else s) sqs
        in map (\<lambda>row. map (\<lambda>i. jsdiv (jssub (row ! i) (rd means i)) (rd stds i)) [0..<length row]) data)"

subsection \<open>The standardizer on binary64 numbers\<close>

text \<open>
  The nearest integer, a tie going to the even neighbour.
\<close>

definition round_to_even :: "real \<Rightarrow> int" where
  "round_to_even y =
     (let f = \<lfloor>y\<rfloor>; r = y - of_int f
      in if r < 1 / 2 then f else if 1 / 2 < r then f + 1 else if even f then f else f + 1)"

text \<open>
  The binary64 number nearest to a real (round to nearest, ties to even), as every arithmetic
  operation of the language returns it: the real is scaled so that its 53-bit significand is
  an integer, and that integer is rounded. Only the normal range is modelled (no overflow, no
  subnormal numbers).
\<close>

definition binary64 :: "real \<Rightarrow> real" where
  "binary64 x =
     (if x = 0 then 0
      else let ulp = 2 powr (of_int \<lfloor>log 2 \<bar>x\<bar>\<rfloor> - 52)
           in of_int (round_to_even (x / ulp)) * ulp)"

fun rounded :: "jsnum \<Rightarrow> jsnum" where
  "rounded (Fin x) = Fin (binary64 x)"
| "rounded v = v"

text \<open>
  \<^verbatim>\<open>standardizeData\<close> with the result of every arithmetic operation passed through \<open>r\<close>:
  with \<open>r = rounded\<close> this is the function on binary64 numbers (\<^verbatim>\<open>Math.pow(x, 2)\<close> as the
  rounded product, \<^verbatim>\<open>Math.sqrt\<close> as the rounded square root), with the identity it is the
  exact function above.
\<close>

definition accumulate_row_rounded ::
  "(jsnum \<Rightarrow> jsnum) \<Rightarrow> (jsnum \<Rightarrow> nat \<Rightarrow> jsnum) \<Rightarrow> jsnum list \<Rightarrow> jsnum list \<Rightarrow> jsnum list" where
  "accumulate_row_rounded r f acc row =
     foldl (\<lambda>a i. wr a i (r (jsadd (rd a i) (f (row ! i) i)))) acc [0..<length row]"

definition standardizeData_rounded :: "(jsnum \<Rightarrow> jsnum) \<Rightarrow> jsnum list list \<Rightarrow> jsnum list list" where
  "standardizeData_rounded r data =
     (if length data = 0 \<or> length (data ! 0) = 0 then []
      else
        let numFeatures = length (data ! 0);
            n = Fin (real (length data));
            colsums = foldl (accumulate_row_rounded r (\<lambda>val i. val)) (replicate numFeatures (Fin 0)) data;
            means = map (\<lambda>sum. r (jsdiv sum n)) colsums;
            sqs = foldl (accumulate_row_rounded r
                           (\<lambda>val i. let dv = r (jssub val (rd means i)) in r (jsmul dv dv)))
                    (replicate numFeatures (Fin 0)) data;
            stds = map (\<lambda>sum. let s = r (jssqrt (r (jsdiv sum n))) in if jseq s (Fin 0) then Fin 1 else s) sqs
        in map (\<lambda>row. map (\<lambda>i. r (jsdiv (r (jssub (row ! i) (rd means i))) (rd stds i))) [0..<length row]) data)"

subsection \<open>The statistics of the specification\<close>

text \<open>Columns, means and population standard deviations over exact reals.\<close>

definition column :: "real list list \<Rightarrow> nat \<Rightarrow> real list" where
  "column m j = map (\<lambda>row. row ! j) m"

definition mean :: "real list \<Rightarrow> real" where
  "mean xs = sum_list xs / real (length xs)"

definition population_std :: "real list \<Rightarrow> real" where
  "population_std xs = sqrt (sum_list (map (\<lambda>x. (x - mean xs)\<^sup>2) xs) / real (length xs))"

definition rectangular :: "'a list list \<Rightarrow> nat \<Rightarrow> bool" where
  "rectangular m d = list_all (\<lambda>row. length row = d) m"

text \<open>A column all of whose entries are equal.\<close>

definition constant_column :: "real list \<Rightarrow> bool" where
  "constant_column xs = list_all (\<lambda>x. x = hd xs) xs"

text \<open>
  The specification's standardizer: every value becomes \<open>(value - mean) / std\<close> of its
  column, with \<open>1\<close> substituted for a standard deviation of \<open>0\<close>.
\<close>

definition scale :: "real list \<Rightarrow> real" where
  "scale xs = (if population_std xs = 0 then 1 else population_std xs)"

definition standardize_spec :: "real list list \<Rightarrow> real list list" where
  "standardize_spec X =
     map (\<lambda>row. map (\<lambda>j. (row ! j - mean (column X j)) / scale (column X j)) [0..<length row]) X"

section \<open>Errors and the pseudorandom source\<close>

text \<open>
  The exceptions the engine can throw: a \<^verbatim>\<open>TypeError\<close> (spreading or indexing \<^verbatim>\<open>undefined\<close>)
  and a \<^verbatim>\<open>RangeError\<close> (\<^verbatim>\<open>Array(k)\<close> with a negative length). The source has no other
  \<^verbatim>\<open>throw\<close>.
\<close>

datatype js_error = TypeError | RangeError

text \<open>
  \<^verbatim>\<open>Math.random()\<close>: the successive values are a function of the call count; the state
  threaded through the engine is the number of calls made so far. The contract of
  \<^verbatim>\<open>Math.random\<close> is \<open>random_ok\<close>: every value lies in \<open>[0, 1)\<close>.
\<close>

type_synonym rng = "nat \<Rightarrow> real"

definition random_ok :: "rng \<Rightarrow> bool" where
  "random_ok rng = (\<forall>i. 0 \<le> rng i \<and> rng i < 1)"

text \<open>\<^verbatim>\<open>Math.floor(Math.random() * n)\<close>.\<close>

definition random_index :: "rng \<Rightarrow> nat \<Rightarrow> nat \<Rightarrow> int" where
  "random_index rng p n = \<lfloor>rng p * real n\<rfloor>"

text \<open>\<^verbatim>\<open>[...data[idx]]\<close>: spreading \<^verbatim>\<open>undefined\<close> (an index outside the array) throws.\<close>

definition copy_row :: "jsnum list list \<Rightarrow> int \<Rightarrow> js_error + jsnum list" where
  "copy_row data idx = (if 0 \<le> idx \<and> idx < int (length data) then Inr (data ! nat idx) else Inl TypeError)"

section \<open>K-means: seeding\<close>

text \<open>
  The cumulative-probability draw of \<^verbatim>\<open>initializeCentroids\<close>: the loop over \<open>j\<close> with its
  \<^verbatim>\<open>break\<close>; when the loop ends without a break, \<^verbatim>\<open>selectedIndex\<close> keeps its initial 0.
\<close>

fun select_loop :: "jsnum \<Rightarrow> jsnum list \<Rightarrow> nat \<Rightarrow> jsnum \<Rightarrow> nat" where
  "select_loop r [] j cumulativeProb = 0"
| "select_loop r (prob # probabilities) j cumulativeProb =
     (let cumulativeProb' = jsadd cumulativeProb prob
      in if jsle r cumulativeProb' then j else select_loop r probabilities (Suc j) cumulativeProb')"

text \<open>
  The state of the seeding loop: the centroids pushed so far and the random source's
  position. \<open>picks\<close> is a ghost field: the row index behind each pushed centroid.
\<close>

record seeding =
  chosen :: "jsnum list list"
  picks :: "int list"
  pos :: nat

definition seed_distances :: "jsnum list list \<Rightarrow> jsnum list list \<Rightarrow> jsnum list" where
  "seed_distances data cs =
     map (\<lambda>point. let minDistance = foldl (\<lambda>m centroid. jsmin m (euclideanDistance point centroid)) PInf cs
                  in jsmul minDistance minDistance) data"

text \<open>One iteration of \<^verbatim>\<open>for (let i = 1; i < k; i++)\<close>.\<close>

definition seed_step :: "rng \<Rightarrow> jsnum list list \<Rightarrow> seeding \<Rightarrow> js_error + seeding" where
  "seed_step rng data s =
     (let distances = seed_distances data (chosen s);
          total = foldl jsadd (Fin 0) distances
      in if jseq total (Fin 0) then
           (let randomIndex = random_index rng (pos s) (length data)
            in case copy_row data randomIndex of
                 Inl e \<Rightarrow> Inl e
               | Inr row \<Rightarrow> Inr \<lparr>chosen = chosen s @ [row], picks = picks s @ [randomIndex], pos = Suc (pos s)\<rparr>)
         else
           (let probabilities = map (\<lambda>distance. jsdiv distance total) distances;
                r = Fin (rng (pos s));
                selectedIndex = int (select_loop r probabilities 0 (Fin 0))
            in case copy_row data selectedIndex of
                 Inl e \<Rightarrow> Inl e
               | Inr row \<Rightarrow> Inr \<lparr>chosen = chosen s @ [row], picks = picks s @ [selectedIndex], pos = Suc (pos s)\<rparr>))"

fun repeat_steps :: "nat \<Rightarrow> ('s \<Rightarrow> js_error + 's) \<Rightarrow> 's \<Rightarrow> js_error + 's" where
  "repeat_steps 0 body s = Inr s"
| "repeat_steps (Suc m) body s = (case body s of Inl e \<Rightarrow> Inl e | Inr s' \<Rightarrow> repeat_steps m body s')"

definition seed_centroids :: "rng \<Rightarrow> nat \<Rightarrow> jsnum list list \<Rightarrow> int \<Rightarrow> js_error + seeding" where
  "seed_centroids rng p data k =
     (let firstIndex = random_index rng p (length data)
      in case copy_row data firstIndex of
           Inl e \<Rightarrow> Inl e
         | Inr row \<Rightarrow> repeat_steps (nat (k - 1)) (seed_step rng data)
                       \<lparr>chosen = [row], picks = [firstIndex], pos = Suc p\<rparr>)"

definition initializeCentroids :: "rng \<Rightarrow> nat \<Rightarrow> jsnum list list \<Rightarrow> int \<Rightarrow> js_error + jsnum list list \<times> nat" where
  "initializeCentroids rng p data k =
     (case seed_centroids rng p data k of Inl e \<Rightarrow> Inl e | Inr s \<Rightarrow> Inr (chosen s, pos s))"

text \<open>
  The invariant of the seeding loop on a finite matrix \<open>X\<close>: the picks are row indices, the
  chosen centroids are the picked rows, and the picked rows are pairwise different.
\<close>

definition seeded :: "real list list \<Rightarrow> seeding \<Rightarrow> bool" where
  "seeded X s = ((\<forall>i\<in>set (picks s). 0 \<le> i \<and> i < int (length X)) \<and>
                 chosen s = map (\<lambda>i. map Fin (X ! nat i)) (picks s) \<and>
                 distinct (map (\<lambda>i. X ! nat i) (picks s)) \<and> picks s \<noteq> [])"

section \<open>K-means: Lloyd iteration\<close>

text \<open>The inner scan of the assignment step: the index of the first nearest centroid.\<close>

definition nearest :: "jsnum list \<Rightarrow> jsnum list list \<Rightarrow> int \<Rightarrow> nat" where
  "nearest point cs k =
     snd (foldl (\<lambda>(minDistance, minIndex) j.
                   let distance = euclideanDistance point (cs ! j)
                   in if jslt distance minDistance then (distance, j) else (minDistance, minIndex))
            (PInf, 0) [0..<nat k])"

text \<open>The assignment step: the new labels, and whether any label changed.\<close>

definition assign_labels :: "jsnum list list \<Rightarrow> jsnum list list \<Rightarrow> int \<Rightarrow> nat list \<Rightarrow> nat list \<times> bool" where
  "assign_labels data cs k labs =
     foldl (\<lambda>(ls, changed) i.
              let minIndex = nearest (data ! i) cs k
              in if ls ! i \<noteq> minIndex then (ls[i := minIndex], True) else (ls, changed))
       (labs, False) [0..<length data]"

text \<open>
  The update step. \<^verbatim>\<open>newCentroids[label][j] += data[i][j]\<close> throws when \<open>label\<close> is not an index
  of \<^verbatim>\<open>newCentroids\<close> (the width \<open>d\<close> is positive wherever the engine calls this).
\<close>

definition accumulate_clusters ::
  "jsnum list list \<Rightarrow> nat list \<Rightarrow> nat \<Rightarrow> nat \<Rightarrow> js_error + jsnum list list \<times> nat list" where
  "accumulate_clusters data labs k d =
     foldl (\<lambda>acc i. case acc of
                Inl e \<Rightarrow> Inl e
              | Inr (newCentroids, counts) \<Rightarrow>
                  let label = labs ! i
                  in if k \<le> label then Inl TypeError
                     else Inr (newCentroids[label := map (\<lambda>j. jsadd (newCentroids ! label ! j) (rd (data ! i) j)) [0..<d]],
                               counts[label := counts ! label + 1]))
       (Inr (replicate k (replicate d (Fin 0)), replicate k 0)) [0..<length data]"

definition update_centroids ::
  "jsnum list list \<Rightarrow> nat list \<Rightarrow> jsnum list list \<Rightarrow> int \<Rightarrow> nat \<Rightarrow> js_error + jsnum list list" where
  "update_centroids data labs cs k d =
     (if k < 0 then Inl RangeError
      else case accumulate_clusters data labs (nat k) d of
             Inl e \<Rightarrow> Inl e
           | Inr (newCentroids, counts) \<Rightarrow>
               Inr (foldl (\<lambda>c i. if 0 < counts ! i
                                 then c[i := foldl (\<lambda>row j. wr row j (jsdiv (newCentroids ! i ! j) (Fin (real (counts ! i)))))
                                                (c ! i) [0..<d]]
                                 else c)
                      cs [0..<nat k]))"

text \<open>
  The \<^verbatim>\<open>while (changed && iterations < maxIterations)\<close> loop. The cluster count \<open>k\<close> and
  \<open>maxIterations\<close> are integers, as every caller passes them; \<^verbatim>\<open>Array(k)\<close> throws for a
  negative \<open>k\<close>.
\<close>

function lloyd ::
  "jsnum list list \<Rightarrow> int \<Rightarrow> nat \<Rightarrow> int \<Rightarrow> nat list \<Rightarrow> jsnum list list \<Rightarrow> int \<Rightarrow> bool
     \<Rightarrow> js_error + nat list \<times> jsnum list list" where
  "lloyd data k d maxIterations labs cs iterations changed =
     (if changed \<and> iterations < maxIterations then
        (case assign_labels data cs k labs of
           (labs', changed') \<Rightarrow>
             (case update_centroids data labs' cs k d of
                Inl e \<Rightarrow> Inl e
              | Inr cs' \<Rightarrow> lloyd data k d maxIterations labs' cs' (iterations + 1) changed'))
      else Inr (labs, cs))"
  by pat_completeness auto
termination
  by (relation "measure (\<lambda>(data, k, d, maxIterations, labs, cs, iterations, changed). nat (maxIterations - iterations))") auto

declare lloyd.simps [simp del]

record kmeans_result =
  labels :: "nat list"
  centroids :: "jsnum list list"
  inertia :: jsnum

definition performKMeans ::
  "rng \<Rightarrow> nat \<Rightarrow> jsnum list list \<Rightarrow> int \<Rightarrow> int \<Rightarrow> js_error + kmeans_result \<times> nat" where
  "performKMeans rng p data k maxIterations =
     (if length data = 0 \<or> length (data ! 0) = 0 then Inr (\<lparr>labels = [], centroids = [], inertia = Fin 0\<rparr>, p)
      else
        let n = length data; d = length (data ! 0)
        in case initializeCentroids rng p data k of
             Inl e \<Rightarrow> Inl e
           | Inr (cs0, p') \<Rightarrow>
               (case lloyd data k d maxIterations (replicate n 0) cs0 0 True of
                  Inl e \<Rightarrow> Inl e
                | Inr (labs, cs) \<Rightarrow>
                    Inr (\<lparr>labels = labs, centroids = cs,
                          inertia = foldl (\<lambda>acc i. jsadd acc (euclideanDistance (data ! i) (cs ! (labs ! i))))
                                      (Fin 0) [0..<n]\<rparr>, p')))"

text \<open>The indices, among the first \<open>n\<close> rows, of the points labelled \<open>c\<close>, in row order.\<close>

definition assigned :: "nat list \<Rightarrow> nat \<Rightarrow> nat \<Rightarrow> nat list" where
  "assigned labs c n = filter (\<lambda>i. labs ! i = c) [0..<n]"

section \<open>Cluster evaluation\<close>

text \<open>\<^verbatim>\<open>labels[i]\<close>: \<^verbatim>\<open>undefined\<close> past the end of the label array.\<close>

definition label_at :: "'a list \<Rightarrow> nat \<Rightarrow> 'a option" where
  "label_at labs i = (if i < length labs then Some (labs ! i) else None)"

text \<open>\<^verbatim>\<open>[...new Set(labels)]\<close>: the distinct labels in order of first occurrence.\<close>

definition distinct_labels :: "'a list \<Rightarrow> 'a list" where
  "distinct_labels labs = rev (remdups (rev labs))"

text \<open>
  The sum and the count of the distances from point \<open>i\<close> to the points \<open>j\<close> selected by
  \<open>sel\<close>: the two inner loops over \<open>j\<close> of \<^verbatim>\<open>calculateSilhouetteScore\<close>.
\<close>

definition distances_to :: "jsnum list list \<Rightarrow> nat \<Rightarrow> (nat \<Rightarrow> bool) \<Rightarrow> jsnum \<times> nat" where
  "distances_to data i sel =
     foldl (\<lambda>(total, count) j.
              if sel j then (jsadd total (euclideanDistance (data ! i) (data ! j)), Suc count)
              else (total, count))
       (Fin 0, 0) [0..<length data]"

text \<open>
  The body of \<^verbatim>\<open>for (const cluster of uniqueClusters)\<close>: the running minimum of the mean
  distances from point \<open>i\<close> to the other clusters.
\<close>

definition nearest_cluster_step :: "jsnum list list \<Rightarrow> 'a list \<Rightarrow> nat \<Rightarrow> jsnum \<Rightarrow> 'a \<Rightarrow> jsnum" where
  "nearest_cluster_step data labs i minInterClusterDistance cluster =
     (if Some cluster = label_at labs i then minInterClusterDistance
      else (let (sumDistances, count) = distances_to data i (\<lambda>j. label_at labs j = Some cluster)
            in if 0 < count then jsmin minInterClusterDistance (jsdiv sumDistances (Fin (real count)))
               else minInterClusterDistance))"

definition silhouette_at :: "jsnum list list \<Rightarrow> 'a list \<Rightarrow> nat \<Rightarrow> jsnum" where
  "silhouette_at data labs i =
     (let clusterI = label_at labs i;
          (sumIntraCluster, countIntraCluster) = distances_to data i (\<lambda>j. i \<noteq> j \<and> label_at labs j = clusterI);
          a = (if 0 < countIntraCluster then jsdiv sumIntraCluster (Fin (real countIntraCluster)) else Fin 0);
          minInterClusterDistance = foldl (nearest_cluster_step data labs i) PInf (distinct_labels labs);
          b = (if minInterClusterDistance = PInf then Fin 0 else minInterClusterDistance)
      in if jseq a (Fin 0) \<and> jseq b (Fin 0) then Fin 0
         else if jseq a (Fin 0) then Fin 1
         else if jseq b (Fin 0) then Fin (- 1)
         else jsdiv (jssub b a) (jsmax a b))"

definition calculateSilhouetteScore :: "jsnum list list \<Rightarrow> 'a list \<Rightarrow> jsnum" where
  "calculateSilhouetteScore data labs =
     (if length data < 2 \<or> length (distinct_labels labs) < 2 then Fin 0
      else jsdiv (foldl (\<lambda>silhouetteSum i. jsadd silhouetteSum (silhouette_at data labs i))
                    (Fin 0) [0..<length data])
                 (Fin (real (length data))))"

datatype selection_method = Elbow | Silhouette

record optimal_k =
  scores :: "jsnum list"
  recommendedK :: int

text \<open>
  The loop \<^verbatim>\<open>for (let k = 2; k <= maxK; k++)\<close> over the list of its values of \<open>k\<close>; each
  K-means run uses the default \<^verbatim>\<open>maxIterations = 100\<close>.
\<close>

fun score_loop ::
  "rng \<Rightarrow> jsnum list list \<Rightarrow> selection_method \<Rightarrow> int list \<Rightarrow> jsnum list \<Rightarrow> nat \<Rightarrow> js_error + jsnum list \<times> nat" where
  "score_loop rng data method [] acc p = Inr (acc, p)"
| "score_loop rng data method (k # ks) acc p =
     (case performKMeans rng p data k 100 of
        Inl e \<Rightarrow> Inl e
      | Inr (res, p') \<Rightarrow>
          score_loop rng data method ks
            (acc @ [if method = Elbow then inertia res else calculateSilhouetteScore data (labels res)]) p')"

text \<open>\<^verbatim>\<open>xs.slice(0, -1).map((val, i) => val - xs[i + 1])\<close>.\<close>

definition first_differences :: "jsnum list \<Rightarrow> jsnum list" where
  "first_differences xs = map (\<lambda>i. jssub (xs ! i) (rd xs (Suc i))) [0..<length xs - 1]"

text \<open>
  The \<^verbatim>\<open>forEach\<close> that keeps the index of the first strictly greatest entry, starting from
  \<^verbatim>\<open>-Infinity\<close> and index 0.
\<close>

definition index_of_max :: "jsnum list \<Rightarrow> nat" where
  "index_of_max xs =
     snd (foldl (\<lambda>(best, maxIndex) i. if jslt best (xs ! i) then (xs ! i, i) else (best, maxIndex))
            (NInf, 0) [0..<length xs])"

definition findOptimalK ::
  "rng \<Rightarrow> nat \<Rightarrow> jsnum list list \<Rightarrow> int \<Rightarrow> selection_method \<Rightarrow> js_error + optimal_k \<times> nat" where
  "findOptimalK rng p data maxK method =
     (case score_loop rng data method [2..maxK] [] p of
        Inl e \<Rightarrow> Inl e
      | Inr (sc, p') \<Rightarrow>
          Inr (\<lparr>scores = sc,
                recommendedK =
                  (if method = Elbow
                   then (let diffs = first_differences sc; secondDiffs = first_differences diffs
                         in int (index_of_max secondDiffs) + 2)
                   else int (index_of_max sc) + 2)\<rparr>, p'))"

section \<open>PCA\<close>

record eigen_results =
  eigenvalues :: "jsnum list"
  eigenvectors :: "jsnum list list"

text \<open>\<^verbatim>\<open>Math.sqrt(v.reduce((sum, val) => sum + val * val, 0))\<close>.\<close>

definition vector_norm :: "jsnum list \<Rightarrow> jsnum" where
  "vector_norm v = jssqrt (foldl (\<lambda>sum val. jsadd sum (jsmul val val)) (Fin 0) v)"

definition normalize :: "jsnum list \<Rightarrow> jsnum list" where
  "normalize v = (let norm = vector_norm v in map (\<lambda>val. jsdiv val norm) v)"

text \<open>One power iteration: multiply the matrix by the vector, then normalise.\<close>

definition power_step :: "jsnum list list \<Rightarrow> jsnum list \<Rightarrow> jsnum list" where
  "power_step remainingMatrix vector =
     (let n = length remainingMatrix;
          newVector = map (\<lambda>i. foldl (\<lambda>acc j. jsadd acc (jsmul (remainingMatrix ! i ! j) (vector ! j)))
                                  (Fin 0) [0..<n]) [0..<n]
      in normalize newVector)"

text \<open>The Rayleigh quotient, accumulated by the two nested loops.\<close>

definition rayleigh :: "jsnum list list \<Rightarrow> jsnum list \<Rightarrow> jsnum" where
  "rayleigh remainingMatrix vector =
     (let n = length remainingMatrix
      in foldl (\<lambda>eigenvalue i.
                  foldl (\<lambda>eigenvalue j.
                           jsadd eigenvalue (jsmul (jsmul (vector ! i) (remainingMatrix ! i ! j)) (vector ! j)))
                    eigenvalue [0..<n])
           (Fin 0) [0..<n])"

definition deflate :: "jsnum list list \<Rightarrow> jsnum \<Rightarrow> jsnum list \<Rightarrow> jsnum list list" where
  "deflate remainingMatrix eigenvalue vector =
     (let n = length remainingMatrix
      in map (\<lambda>i. map (\<lambda>j. jssub (remainingMatrix ! i ! j) (jsmul (jsmul eigenvalue (vector ! i)) (vector ! j)))
                   [0..<n]) [0..<n])"

text \<open>
  The state of the loop over the components: the eigenpairs found so far, the deflated
  matrix, and the position of the random source.
\<close>

record extraction =
  found :: eigen_results
  remaining :: "jsnum list list"
  rpos :: nat

text \<open>
  One pass of \<^verbatim>\<open>for (let k = 0; k < numComponents; k++)\<close>: a random start vector, thirty
  power iterations, the Rayleigh quotient, and the deflation.
\<close>

definition extract_component :: "rng \<Rightarrow> extraction \<Rightarrow> extraction" where
  "extract_component rng s =
     (let n = length (remaining s);
          start = map (\<lambda>i. Fin (rng (rpos s + i))) [0..<n];
          vector = (power_step (remaining s) ^^ 30) (normalize start);
          eigenvalue = rayleigh (remaining s) vector
      in \<lparr>found = \<lparr>eigenvalues = eigenvalues (found s) @ [eigenvalue],
                    eigenvectors = eigenvectors (found s) @ [vector]\<rparr>,
          remaining = deflate (remaining s) eigenvalue vector,
          rpos = rpos s + n\<rparr>)"

definition computeEigenvectors :: "rng \<Rightarrow> nat \<Rightarrow> jsnum list list \<Rightarrow> nat \<Rightarrow> eigen_results \<times> nat" where
  "computeEigenvectors rng p matrix numComponents =
     (let s = (extract_component rng ^^ numComponents)
                \<lparr>found = \<lparr>eigenvalues = [], eigenvectors = []\<rparr>, remaining = matrix, rpos = p\<rparr>
      in (found s, rpos s))"

text \<open>The centred rows: \<^verbatim>\<open>data.map(row => row.map((val, j) => val - means[j]))\<close>.\<close>

definition centered_data :: "jsnum list list \<Rightarrow> jsnum list list" where
  "centered_data data =
     (let d = length (data ! 0);
          n = Fin (real (length data));
          colsums = foldl (accumulate_row (\<lambda>val j. val)) (replicate d (Fin 0)) data;
          means = map (\<lambda>sum. jsdiv sum n) colsums
      in map (\<lambda>row. map (\<lambda>j. jssub (row ! j) (rd means j)) [0..<length row]) data)"

text \<open>
  The covariance matrix: the entries with \<open>i \<le> j\<close> are computed, with the divisor
  \<open>n - 1\<close>, and mirrored into the lower triangle.
\<close>

definition covariance_matrix :: "jsnum list list \<Rightarrow> jsnum list list" where
  "covariance_matrix data =
     (let n = length data;
          d = length (data ! 0);
          centeredData = centered_data data;
          entry = (\<lambda>i j. jsdiv (foldl (\<lambda>sum k. jsadd sum (jsmul (rd (centeredData ! k) i) (rd (centeredData ! k) j)))
                                   (Fin 0) [0..<n])
                            (Fin (real n - 1)))
      in map (\<lambda>i. map (\<lambda>j. entry (min i j) (max i j)) [0..<d]) [0..<d])"

text \<open>Step 4 of \<^verbatim>\<open>performPCA\<close>: the call \<^verbatim>\<open>computeEigenvectors(covariance, d)\<close>.\<close>

definition pca_eigenResults :: "rng \<Rightarrow> nat \<Rightarrow> jsnum list list \<Rightarrow> eigen_results \<times> nat" where
  "pca_eigenResults rng p data = computeEigenvectors rng p (covariance_matrix data) (length (data ! 0))"

text \<open>
  \<^verbatim>\<open>.sort((a, b) => b.val - a.val)\<close> on the pairs \<open>(val, idx)\<close>: a stable sort, an element
  moving behind another exactly when the comparator is positive. (When the comparator
  yields NaN the order is implementation-defined; the model then keeps the elements in place.)
\<close>

fun insert_pair :: "jsnum \<times> nat \<Rightarrow> (jsnum \<times> nat) list \<Rightarrow> (jsnum \<times> nat) list" where
  "insert_pair a [] = [a]"
| "insert_pair a (b # bs) =
     (if jslt (Fin 0) (jssub (fst b) (fst a)) then b # insert_pair a bs else a # b # bs)"

definition sort_pairs :: "(jsnum \<times> nat) list \<Rightarrow> (jsnum \<times> nat) list" where
  "sort_pairs xs = foldr insert_pair xs []"

text \<open>\<^verbatim>\<open>xs.slice(0, k)\<close>: a negative \<open>k\<close> counts from the end.\<close>

definition slice0 :: "'a list \<Rightarrow> int \<Rightarrow> 'a list" where
  "slice0 xs k = take (if k < 0 then nat (int (length xs) + k) else nat k) xs"

record pca_result =
  projectedData :: "jsnum list list"
  explainedVariance :: "jsnum list"
  components :: "jsnum list list"

text \<open>
  \<^verbatim>\<open>performPCA(data, numComponents?)\<close>; \<open>None\<close> is an omitted \<^verbatim>\<open>numComponents\<close>, and
  \<^verbatim>\<open>numComponents || d\<close> also replaces 0 by \<open>d\<close>.
\<close>

definition performPCA :: "rng \<Rightarrow> nat \<Rightarrow> jsnum list list \<Rightarrow> int option \<Rightarrow> pca_result \<times> nat" where
  "performPCA rng p data numComponents =
     (if length data = 0 \<or> length (data ! 0) = 0
      then (\<lparr>projectedData = [], explainedVariance = [], components = []\<rparr>, p)
      else
        let d = length (data ! 0);
            centeredData = centered_data data;
            (eigenResults, p') = pca_eigenResults rng p data;
            eigenPairs = sort_pairs (zip (eigenvalues eigenResults) [0..<length (eigenvalues eigenResults)]);
            totalVariance = foldl (\<lambda>acc pair. jsadd acc (fst pair)) (Fin 0) eigenPairs;
            ratios = map (\<lambda>pair. jsdiv (fst pair) totalVariance) eigenPairs;
            k = (case numComponents of None \<Rightarrow> int d | Some c \<Rightarrow> if c = 0 then int d else c);
            comps = map (\<lambda>pair. eigenvectors eigenResults ! snd pair) (slice0 eigenPairs k);
            projected = map (\<lambda>row. map (\<lambda>component.
                                 foldl (\<lambda>dotProduct i. jsadd dotProduct (jsmul (rd row i) (component ! i)))
                                   (Fin 0) [0..<d]) comps) centeredData
        in (\<lparr>projectedData = projected, explainedVariance = slice0 ratios k, components = comps\<rparr>, p'))"

section \<open>Records and imputation\<close>

text \<open>
  The value of a record field: a number, a string, \<^verbatim>\<open>null\<close> or \<^verbatim>\<open>undefined\<close>. A record is
  the list of its own properties in enumeration order; the property names are the headers of
  the data set and the names of the engineered features, not array indices, so a new property
  is enumerated last.
\<close>

datatype jsval = JNum jsnum | JStr string | JNull | JUndefined

type_synonym passenger = "(string \<times> jsval) list"

text \<open>\<^verbatim>\<open>passenger[feature]\<close>: \<^verbatim>\<open>undefined\<close> for a property the record does not have.\<close>

definition get_prop :: "passenger \<Rightarrow> string \<Rightarrow> jsval" where
  "get_prop passenger feature = (case map_of passenger feature of None \<Rightarrow> JUndefined | Some v \<Rightarrow> v)"

text \<open>\<^verbatim>\<open>passenger[feature] = v\<close>.\<close>

fun set_prop :: "passenger \<Rightarrow> string \<Rightarrow> jsval \<Rightarrow> passenger" where
  "set_prop [] feature v = [(feature, v)]"
| "set_prop ((name, w) # rest) feature v =
     (if name = feature then (name, v) # rest else (name, w) # set_prop rest feature v)"

text \<open>\<^verbatim>\<open>typeof value === 'number'\<close>.\<close>

fun is_number :: "jsval \<Rightarrow> bool" where
  "is_number (JNum x) = True"
| "is_number _ = False"

definition excludeFeatures :: "string list" where
  "excludeFeatures = [''PassengerId'', ''Name'', ''Ticket'', ''Cabin'', ''Survived'']"

record feature_types =
  numericalFeatures :: "string list"
  categoricalFeatures :: "string list"

definition identifyFeatureTypes :: "passenger list \<Rightarrow> feature_types" where
  "identifyFeatureTypes data =
     (if length data = 0 then \<lparr>numericalFeatures = [], categoricalFeatures = []\<rparr>
      else
        let samplePassenger = data ! 0
        in foldl (\<lambda>acc feature.
                    if feature \<in> set excludeFeatures then acc
                    else if is_number (get_prop samplePassenger feature)
                         then acc\<lparr>numericalFeatures := numericalFeatures acc @ [feature]\<rparr>
                         else acc\<lparr>categoricalFeatures := categoricalFeatures acc @ [feature]\<rparr>)
             \<lparr>numericalFeatures = [], categoricalFeatures = []\<rparr> (map fst samplePassenger))"

text \<open>
  The conversions of the language that the imputer relies on and the repository does not
  define: a number to its string (as a property key, or in a string concatenation) and a
  string to a number (in an arithmetic expression).
\<close>

record conversions =
  number_to_string :: "jsnum \<Rightarrow> string"
  string_to_number :: "string \<Rightarrow> jsnum"

definition to_number :: "conversions \<Rightarrow> jsval \<Rightarrow> jsnum" where
  "to_number cv v = (case v of JNum x \<Rightarrow> x | JStr s \<Rightarrow> string_to_number cv s | JNull \<Rightarrow> Fin 0 | JUndefined \<Rightarrow> NaN)"

definition to_string :: "conversions \<Rightarrow> jsval \<Rightarrow> string" where
  "to_string cv v = (case v of JNum x \<Rightarrow> number_to_string cv x | JStr s \<Rightarrow> s
                      | JNull \<Rightarrow> ''null'' | JUndefined \<Rightarrow> ''undefined'')"

text \<open>\<^verbatim>\<open>a + b\<close>: a concatenation as soon as one operand is a string.\<close>

definition js_plus :: "conversions \<Rightarrow> jsval \<Rightarrow> jsval \<Rightarrow> jsval" where
  "js_plus cv a b =
     (if (\<exists>s. a = JStr s) \<or> (\<exists>s. b = JStr s) then JStr (to_string cv a @ to_string cv b)
      else JNum (jsadd (to_number cv a) (to_number cv b)))"

text \<open>
  \<^verbatim>\<open>validValues.sort((a, b) => a - b)\<close>: a stable sort, an element moving behind another
  exactly when the comparator is positive.
\<close>

fun insert_value :: "conversions \<Rightarrow> jsval \<Rightarrow> jsval list \<Rightarrow> jsval list" where
  "insert_value cv a [] = [a]"
| "insert_value cv a (b # bs) =
     (if jslt (Fin 0) (jssub (to_number cv a) (to_number cv b)) then b # insert_value cv a bs else a # b # bs)"

definition sort_values :: "conversions \<Rightarrow> jsval list \<Rightarrow> jsval list" where
  "sort_values cv xs = foldr (insert_value cv) xs []"

definition column_median :: "conversions \<Rightarrow> passenger list \<Rightarrow> string \<Rightarrow> jsval" where
  "column_median cv data feature =
     (let validValues = sort_values cv (filter (\<lambda>v. v \<noteq> JNull \<and> v \<noteq> JUndefined) (map (\<lambda>p. get_prop p feature) data))
      in if 0 < length validValues then
           (let mid = length validValues div 2
            in if length validValues mod 2 = 0
               then JNum (jsdiv (to_number cv (js_plus cv (validValues ! (mid - 1)) (validValues ! mid))) (Fin 2))
               else validValues ! mid)
         else JNum (Fin 0))"

text \<open>
  The tally \<^verbatim>\<open>valueCounts\<close> is a plain object: a value whose key names a member of
  \<^verbatim>\<open>Object.prototype\<close> finds that member instead of a count, its tally is then not a number
  and never exceeds \<^verbatim>\<open>maxCount\<close>; such values are left out of the tally here.
\<close>

definition object_prototype_names :: "string list" where
  "object_prototype_names =
     [''constructor'', ''__defineGetter__'', ''__defineSetter__'', ''hasOwnProperty'', ''__lookupGetter__'',
      ''__lookupSetter__'', ''isPrototypeOf'', ''propertyIsEnumerable'', ''toString'', ''valueOf'',
      ''__proto__'', ''toLocaleString'']"

text \<open>\<^verbatim>\<open>valueCounts[key] = (valueCounts[key] || 0) + 1\<close>.\<close>

fun bump :: "(string \<times> nat) list \<Rightarrow> string \<Rightarrow> (string \<times> nat) list" where
  "bump [] key = [(key, 1)]"
| "bump ((name, count) # rest) key =
     (if name = key then (name, count + 1) # rest else (name, count) # bump rest key)"

text \<open>
  \<^verbatim>\<open>Object.entries\<close>: the keys that are array indices (canonical decimal numerals below
  \<open>2\<^sup>3\<^sup>2 - 1\<close>) first, in ascending numeric order, then the other keys in insertion order.
\<close>

definition is_digit :: "char \<Rightarrow> bool" where
  "is_digit c = (48 \<le> (of_char c :: nat) \<and> (of_char c :: nat) \<le> 57)"

definition decimal_value :: "string \<Rightarrow> nat" where
  "decimal_value s = foldl (\<lambda>n c. 10 * n + (of_char c - 48)) 0 s"

definition is_array_index :: "string \<Rightarrow> bool" where
  "is_array_index s =
     (s \<noteq> [] \<and> list_all is_digit s \<and> (s = ''0'' \<or> hd s \<noteq> CHR ''0'') \<and> decimal_value s < 4294967295)"

definition object_entries :: "(string \<times> nat) list \<Rightarrow> (string \<times> nat) list" where
  "object_entries kvs =
     sort_key (\<lambda>kv. decimal_value (fst kv)) (filter (\<lambda>kv. is_array_index (fst kv)) kvs)
       @ filter (\<lambda>kv. \<not> is_array_index (fst kv)) kvs"

definition column_mode :: "conversions \<Rightarrow> passenger list \<Rightarrow> string \<Rightarrow> string" where
  "column_mode cv data feature =
     (let valueCounts =
            foldl (\<lambda>counts passenger.
                     let v = get_prop passenger feature
                     in if v \<noteq> JNull \<and> v \<noteq> JUndefined \<and> v \<noteq> JStr ''''
                        then (if to_string cv v \<in> set object_prototype_names then counts
                              else bump counts (to_string cv v))
                        else counts) [] data
      in snd (foldl (\<lambda>(maxCount, modeValue) (v, count).
                       if maxCount < count then (count, v) else (maxCount, modeValue))
                (0, '''') (object_entries valueCounts)))"

text \<open>The two \<^verbatim>\<open>forEach\<close> passes that fill one copied record.\<close>

definition impute_passenger ::
  "conversions \<Rightarrow> passenger list \<Rightarrow> feature_types \<Rightarrow> passenger \<Rightarrow> passenger" where
  "impute_passenger cv data types passenger =
     (let imputed = foldl (\<lambda>imputed feature.
                             if get_prop imputed feature = JNull \<or> get_prop imputed feature = JUndefined
                             then set_prop imputed feature (column_median cv data feature) else imputed)
                      passenger (numericalFeatures types)
      in foldl (\<lambda>imputed feature.
                  if get_prop imputed feature = JNull \<or> get_prop imputed feature = JUndefined
                     \<or> get_prop imputed feature = JStr ''''
                  then set_prop imputed feature (JStr (column_mode cv data feature)) else imputed)
           imputed (categoricalFeatures types))"

definition imputeMissingValues :: "conversions \<Rightarrow> passenger list \<Rightarrow> passenger list" where
  "imputeMissingValues cv data = map (impute_passenger cv data (identifyFeatureTypes data)) data"

section \<open>Verification: arithmetic on finite numbers\<close>

lemma jssub_Fin: "jssub (Fin x) (Fin y) = Fin (x - y)"
  by (simp add: jssub_def)

section \<open>Verification: the standardizer\<close>


lemma wr_in: "i < length xs \<Longrightarrow> wr xs i v = xs[i := v]" by (simp add: wr_def)
lemma rd_in: "i < length xs \<Longrightarrow> rd xs i = xs ! i" by (simp add: rd_def)

lemma accumulate_row_prefix:
  "k \<le> length row \<Longrightarrow> length row \<le> length acc \<Longrightarrow>
   foldl (\<lambda>a i. wr a i (jsadd (rd a i) (f (row ! i) i))) acc [0..<k]
     = map (\<lambda>i. jsadd (acc ! i) (f (row ! i) i)) [0..<k] @ drop k acc"
proof (induction k)
  case 0 then show ?case by simp
next
  case (Suc k)
  then have k: "k < length acc" "k \<le> length row" by simp_all
  have "(map (\<lambda>i. jsadd (acc ! i) (f (row ! i) i)) [0..<k] @ drop k acc)[k := v]
        = map (\<lambda>i. jsadd (acc ! i) (f (row ! i) i)) [0..<k] @ [v] @ drop (Suc k) acc" for v
    using k by (simp add: list_update_append upd_conv_take_nth_drop)
  then show ?case using Suc k
    by (simp add: wr_in rd_in nth_append)
qed

lemma accumulate_row_same_length:
  "length acc = length row \<Longrightarrow>
   accumulate_row f acc row = map (\<lambda>i. jsadd (acc ! i) (f (row ! i) i)) [0..<length row]"
  unfolding accumulate_row_def using accumulate_row_prefix[of "length row" row acc f] by simp

lemma accumulate_rows_Fin:
  assumes f: "\<And>v j. j < d \<Longrightarrow> f (Fin v) j = Fin (g v j)"
  shows "length acc = d \<Longrightarrow> rectangular X d \<Longrightarrow>
    foldl (accumulate_row f) (map Fin acc) (map (map Fin) X)
      = map (\<lambda>j. Fin (acc ! j + sum_list (map (\<lambda>row. g (row ! j) j) X))) [0..<d]"
proof (induction X arbitrary: acc)
  case Nil
  then show ?case by (simp add: list_eq_iff_nth_eq)
next
  case (Cons row X)
  then have len: "length row = d" and rect: "rectangular X d" by (simp_all add: rectangular_def)
  have step: "accumulate_row f (map Fin acc) (map Fin row) = map Fin (map (\<lambda>j. acc ! j + g (row ! j) j) [0..<d])"
    using Cons.prems(1) len f by (simp add: accumulate_row_same_length)
  show ?case
    using Cons.IH[of "map (\<lambda>j. acc ! j + g (row ! j) j) [0..<d]"] rect
    by (simp add: step add.assoc)
qed

lemma rectangular_nth: "rectangular X d \<Longrightarrow> row \<in> set X \<Longrightarrow> length row = d"
  by (simp add: rectangular_def list_all_iff)

lemma standardizeData_Fin:
  assumes ne: "X \<noteq> []" and d: "0 < d" and rect: "rectangular X d"
  shows "standardizeData (map (map Fin) X) = map (map Fin) (standardize_spec X)"
proof -
  let ?n = "real (length X)"
  have n0: "?n \<noteq> 0" using ne by simp
  have len0: "length (X ! 0) = d" using ne rect by (cases X) (simp_all add: rectangular_def)
  let ?zero = "replicate d (0::real)"
  have z: "replicate d (Fin 0) = map Fin ?zero" by simp
  have sums: "foldl (accumulate_row (\<lambda>val i. val)) (replicate d (Fin 0)) (map (map Fin) X)
     = map (\<lambda>j. Fin (sum_list (column X j))) [0..<d]"
    unfolding z using accumulate_rows_Fin[of d "\<lambda>val i. val" "\<lambda>v j. v" ?zero X] rect
    by (simp add: column_def)
  define means where "means = map (\<lambda>j. Fin (mean (column X j))) [0..<d]"
  have means: "map (\<lambda>sum. jsdiv sum (Fin ?n)) (map (\<lambda>j. Fin (sum_list (column X j))) [0..<d]) = means"
    using n0 by (simp add: means_def mean_def column_def)
  have sqs: "foldl (accumulate_row (\<lambda>val i. jsmul (jssub val (rd means i)) (jssub val (rd means i))))
                (replicate d (Fin 0)) (map (map Fin) X)
     = map (\<lambda>j. Fin (sum_list (map (\<lambda>x. (x - mean (column X j))\<^sup>2) (column X j)))) [0..<d]"
    unfolding z
    using accumulate_rows_Fin[of d "\<lambda>val i. jsmul (jssub val (rd means i)) (jssub val (rd means i))"
         "\<lambda>v j. (v - mean (column X j))\<^sup>2" ?zero X] rect
    by (simp add: column_def means_def rd_def jssub_Fin power2_eq_square comp_def)
  define stds where "stds = map (\<lambda>j. Fin (scale (column X j))) [0..<d]"
  have nonneg: "0 \<le> sum_list (map (\<lambda>x. (x - m)\<^sup>2) xs) / real (length xs)" for m and xs :: "real list"
    by (intro divide_nonneg_nonneg sum_list_nonneg) auto
  have stds: "map (\<lambda>sum. if jseq (jssqrt (jsdiv sum (Fin ?n))) (Fin 0) then Fin 1 else jssqrt (jsdiv sum (Fin ?n)))
       (map (\<lambda>j. Fin (sum_list (map (\<lambda>x. (x - mean (column X j))\<^sup>2) (column X j)))) [0..<d]) = stds"
    using n0 nonneg[of _ "column X _"]
    by (simp add: stds_def scale_def population_std_def jseq_def Let_def column_def)
  have scale0: "scale xs \<noteq> 0" for xs by (simp add: scale_def)
  have out: "map (\<lambda>i. jsdiv (jssub (map Fin row ! i) (rd means i)) (rd stds i)) [0..<length (map Fin row)]
      = map Fin (map (\<lambda>j. (row ! j - mean (column X j)) / scale (column X j)) [0..<length row])"
    if "row \<in> set X" for row
    using rectangular_nth[OF rect that] scale0
    by (simp add: means_def stds_def rd_def jssub_Fin)
  have eq1: "length (map (map Fin) X) = length X" by simp
  have eq2: "length (map (map Fin) X ! 0) = d" using ne len0 by (simp add: nth_map)
  have "standardizeData (map (map Fin) X)
      = map (\<lambda>row. map (\<lambda>i. jsdiv (jssub (row ! i) (rd means i)) (rd stds i)) [0..<length row]) (map (map Fin) X)"
    unfolding standardizeData_def Let_def eq1 eq2 sums means sqs stds
    using ne d by simp
  also have "\<dots> = map (map Fin) (standardize_spec X)"
    unfolding standardize_spec_def map_map
  proof (rule map_cong[OF refl])
    fix row assume "row \<in> set X"
    then have "length row = d" by (rule rectangular_nth[OF rect])
    then show "((\<lambda>r. map (\<lambda>i. jsdiv (jssub (r ! i) (rd means i)) (rd stds i)) [0..<length r]) \<circ> map Fin) row
        = (map Fin \<circ> (\<lambda>row. map (\<lambda>j. (row ! j - mean (column X j)) / scale (column X j)) [0..<length row])) row"
      using scale0 by (simp add: means_def stds_def rd_def jssub_Fin)
  qed
  finally show ?thesis .
qed

lemma sum_list_shift_scale:
  "sum_list (map (\<lambda>x. (x - m) / s) xs) = (sum_list xs - real (length xs) * m) / (s::real)"
  by (induction xs) (simp_all add: diff_divide_distrib add_divide_distrib distrib_right)

lemma sum_list_sq_scale:
  "sum_list (map (\<lambda>x. ((x - m) / s)\<^sup>2) xs) = sum_list (map (\<lambda>x. (x - m)\<^sup>2) xs) / (s::real)\<^sup>2"
  by (induction xs) (simp_all add: power_divide add_divide_distrib)

lemma mean_standardized:
  assumes "xs \<noteq> []"
  shows "mean (map (\<lambda>x. (x - mean xs) / s) xs) = 0"
  using assms by (simp add: mean_def[of "map _ _"] sum_list_shift_scale) (simp add: mean_def)

lemma population_std_standardized:
  assumes "xs \<noteq> []" and "population_std xs \<noteq> 0"
  shows "population_std (map (\<lambda>x. (x - mean xs) / population_std xs) xs) = 1"
proof -
  let ?v = "sum_list (map (\<lambda>x. (x - mean xs)\<^sup>2) xs) / real (length xs)"
  have v: "0 \<le> ?v" by (intro divide_nonneg_nonneg sum_list_nonneg) auto
  have s: "(population_std xs)\<^sup>2 = ?v" using v by (simp add: population_std_def)
  have v0: "?v \<noteq> 0" using assms(2) s by auto
  have "population_std (map (\<lambda>x. (x - mean xs) / population_std xs) xs)
      = sqrt (sum_list (map (\<lambda>x. ((x - mean xs) / population_std xs)\<^sup>2) xs) / real (length xs))"
    using mean_standardized[OF assms(1), of "population_std xs"]
    by (simp add: population_std_def[of "map _ _"] comp_def)
  also have "\<dots> = sqrt (?v / ?v)"
    by (simp add: sum_list_sq_scale s)
  also have "\<dots> = 1" using v0 by simp
  finally show ?thesis .
qed

lemma mean_constant:
  assumes "xs \<noteq> []" and "constant_column xs"
  shows "\<forall>x\<in>set xs. x = mean xs"
proof -
  have all: "\<forall>x\<in>set xs. x = hd xs" using assms(2) by (simp add: constant_column_def list_all_iff)
  then have "map (\<lambda>x. x) xs = map (\<lambda>x. hd xs) xs" by (intro map_cong) auto
  then have "sum_list xs = real (length xs) * hd xs"
    by (metis list.map_ident sum_list_triv)
  then have "mean xs = hd xs" using assms(1) by (simp add: mean_def)
  then show ?thesis using all by simp
qed

lemma sum_list_sq_zero:
  "sum_list (map (\<lambda>x. (x - m)\<^sup>2) xs) = 0 \<Longrightarrow> \<forall>x\<in>set xs. x = (m::real)"
proof (induction xs)
  case Nil then show ?case by simp
next
  case (Cons a xs)
  have "0 \<le> sum_list (map (\<lambda>x. (x - m)\<^sup>2) xs)" by (intro sum_list_nonneg) auto
  moreover have "0 \<le> (a - m)\<^sup>2" by simp
  ultimately have "(a - m)\<^sup>2 = 0" "sum_list (map (\<lambda>x. (x - m)\<^sup>2) xs) = 0"
    using Cons.prems by (simp_all add: add_nonneg_eq_0_iff)
  then show ?case using Cons.IH by simp
qed

lemma population_std_zero_constant:
  assumes "xs \<noteq> []" and "population_std xs = 0"
  shows "constant_column xs"
proof -
  have "0 \<le> sum_list (map (\<lambda>x. (x - mean xs)\<^sup>2) xs)" by (intro sum_list_nonneg) auto
  then have "sum_list (map (\<lambda>x. (x - mean xs)\<^sup>2) xs) = 0"
    using assms by (simp add: population_std_def)
  then have "\<forall>x\<in>set xs. x = mean xs" by (rule sum_list_sq_zero)
  moreover have "hd xs \<in> set xs" using assms(1) by simp
  ultimately show ?thesis unfolding constant_column_def list_all_iff by metis
qed

lemma column_standardize_spec:
  assumes "rectangular X d" and "j < d"
  shows "column (standardize_spec X) j = map (\<lambda>x. (x - mean (column X j)) / scale (column X j)) (column X j)"
  unfolding column_def standardize_spec_def map_map
  using assms by (intro map_cong[OF refl]) (simp add: rectangular_def list_all_iff)

lemma population_std_constant:
  assumes "xs \<noteq> []" and "constant_column xs"
  shows "population_std xs = 0"
proof -
  have "\<forall>x\<in>set xs. x = mean xs" using assms by (rule mean_constant)
  then have "map (\<lambda>x. (x - mean xs)\<^sup>2) xs = map (\<lambda>x. 0) xs"
    by (intro map_cong) auto
  then have "sum_list (map (\<lambda>x. (x - mean xs)\<^sup>2) xs) = sum_list (map (\<lambda>x. 0) xs)"
    by (rule arg_cong)
  then show ?thesis by (simp add: population_std_def)
qed

text \<open>
  In exact arithmetic, for a matrix of finite numbers with at least one row and \<open>d > 0\<close>
  columns, all rows of length \<open>d\<close>, \<^verbatim>\<open>standardizeData\<close> returns \<open>(value - mean) / scale\<close> per
  column, the mean and the standard deviation taken with the row count as denominator. A column
  that is constant in the input has its scale forced to 1 and becomes all zeros; every other
  column of the output has mean 0 and population standard deviation 1.
\<close>

lemma standardize_exact_arithmetic:
  assumes "X \<noteq> []" and "0 < d" and "rectangular X d"
  shows "standardizeData (map (map Fin) X) = map (map Fin) (standardize_spec X) \<and>
    (\<forall>j<d. (constant_column (column X j) \<longrightarrow>
               scale (column X j) = 1 \<and> list_all (\<lambda>y. y = 0) (column (standardize_spec X) j)) \<and>
            (\<not> constant_column (column X j) \<longrightarrow>
               scale (column X j) = population_std (column X j) \<and>
               mean (column (standardize_spec X) j) = 0 \<and>
               population_std (column (standardize_spec X) j) = 1))"
proof (intro conjI allI impI)
  show "standardizeData (map (map Fin) X) = map (map Fin) (standardize_spec X)"
    using assms by (rule standardizeData_Fin)
next
  fix j assume j: "j < d"
  let ?c = "column X j"
  have ne: "?c \<noteq> []" using assms(1) by (simp add: column_def)
  have col: "column (standardize_spec X) j = map (\<lambda>x. (x - mean ?c) / scale ?c) ?c"
    using assms(3) j by (rule column_standardize_spec)
  {
    assume c: "constant_column ?c"
    then show "scale ?c = 1" using population_std_constant[OF ne] by (simp add: scale_def)
    have "\<forall>x\<in>set ?c. x = mean ?c" using ne c by (rule mean_constant)
    then show "list_all (\<lambda>y. y = 0) (column (standardize_spec X) j)"
      unfolding col by (simp add: list_all_iff)
  }
  {
    assume nc: "\<not> constant_column ?c"
    then have s0: "population_std ?c \<noteq> 0" using population_std_zero_constant[OF ne] by blast
    then show sc: "scale ?c = population_std ?c" by (simp add: scale_def)
    show "mean (column (standardize_spec X) j) = 0"
      unfolding col using ne by (rule mean_standardized)
    show "population_std (column (standardize_spec X) j) = 1"
      unfolding col sc using ne s0 by (rule population_std_standardized)
  }
qed

lemma standardize_exact_arithmetic_example:
  "[[1, 5], [3, 5 :: real]] \<noteq> [] \<and> (0::nat) < 2 \<and> rectangular [[1, 5], [3, 5 :: real]] 2 \<and>
   standardizeData [[Fin 1, Fin 5], [Fin 3, Fin 5]] = [[Fin (- 1), Fin 0], [Fin 1, Fin 0]] \<and>
   constant_column (column [[1, 5], [3, 5]] 1) \<and> \<not> constant_column (column [[1, 5], [3, 5]] 0) \<and>
   mean (column (standardize_spec [[1, 5], [3, 5]]) 0) = 0 \<and>
   population_std (column (standardize_spec [[1, 5], [3, 5]]) 0) = 1"
proof -
  have r: "rectangular [[1, 5], [3, 5 :: real]] 2" by (simp add: rectangular_def)
  have c0: "\<not> constant_column (column [[1, 5], [3, 5]] 0)" by (simp add: constant_column_def column_def)
  have c1: "constant_column (column [[1, 5], [3, 5]] 1)" by (simp add: constant_column_def column_def)
  have m0: "mean (column [[1, 5], [3, 5]] 0) = 2" by (simp add: mean_def column_def)
  have m1: "mean (column [[1, 5], [3, 5]] (Suc 0)) = 5" by (simp add: mean_def column_def)
  have s0: "scale (column [[1, 5], [3, 5]] 0) = 1"
    by (simp add: scale_def population_std_def mean_def column_def)
  have s1: "scale (column [[1, 5], [3, 5]] (Suc 0)) = 1"
    by (simp add: scale_def population_std_def mean_def column_def)
  have spec: "standardize_spec [[1, 5], [3, 5]] = [[- 1, 0], [1, 0]]"
    by (simp add: standardize_spec_def m0 m1 s0 s1 upt_rec[of 0] upt_rec[of 1])
  show ?thesis
    using standardize_exact_arithmetic[of "[[1, 5], [3, 5]]" 2, OF _ _ r] r c0 c1
    by (simp add: spec)
qed

subsection \<open>Constant columns on binary64 numbers\<close>

lemma accumulate_row_exact: "accumulate_row_rounded (\<lambda>x. x) = accumulate_row"
  by (intro ext) (simp add: accumulate_row_rounded_def accumulate_row_def)

lemma standardizeData_exact: "standardizeData_rounded (\<lambda>x. x) data = standardizeData data"
  by (simp add: standardizeData_rounded_def standardizeData_def accumulate_row_exact)

lemma floor_log2_binade:
  assumes "2 ^ 52 \<le> \<bar>y\<bar>" and "\<bar>y\<bar> < 2 ^ 53"
  shows "\<lfloor>log 2 \<bar>y :: real\<bar>\<rfloor> = 52"
proof -
  have pos: "0 < \<bar>y\<bar>" by (rule less_le_trans[OF _ assms(1)]) simp
  have lo: "52 \<le> log 2 \<bar>y\<bar>" using assms(1) pos by (simp add: le_log_iff)
  have hi: "log 2 \<bar>y\<bar> < 53" using assms(2) pos by (simp add: log_less_iff)
  show ?thesis using lo hi by (simp add: floor_eq_iff)
qed

lemma binary64_scaled:
  assumes "2 ^ 52 \<le> \<bar>y\<bar>" and "\<bar>y\<bar> < 2 ^ 53"
  shows "binary64 (y * 2 powr of_int k) = of_int (round_to_even y) * 2 powr of_int k"
proof -
  have y0: "y \<noteq> 0" using assms(1) by auto
  have pos: "0 < \<bar>y\<bar>" using y0 by simp
  have "log 2 \<bar>y * 2 powr of_int k\<bar> = log 2 \<bar>y\<bar> + of_int k"
    using pos by (simp add: abs_mult log_mult)
  then have "\<lfloor>log 2 \<bar>y * 2 powr of_int k\<bar>\<rfloor> = 52 + k"
    using floor_log2_binade[OF assms] by simp
  then show ?thesis using y0 by (simp add: binary64_def Let_def)
qed

lemma binary64_representable:
  assumes "2 ^ 52 \<le> \<bar>m\<bar>" and "\<bar>m\<bar> < 2 ^ 53"
  shows "binary64 (of_int m * 2 powr of_int k) = of_int m * 2 powr of_int k"
proof -
  have "round_to_even (of_int m) = m" by (simp add: round_to_even_def)
  moreover have "2 ^ 52 \<le> \<bar>real_of_int m\<bar>" "\<bar>real_of_int m\<bar> < 2 ^ 53"
    using assms by (simp_all flip: of_int_abs)
  ultimately show ?thesis using binary64_scaled[of "of_int m" k] by simp
qed


lemma binary64_at:
  assumes "x = y * 2 powr of_int k" and "2 ^ 52 \<le> \<bar>y\<bar>" and "\<bar>y\<bar> < 2 ^ 53"
  shows "binary64 x = of_int (round_to_even y) * 2 powr of_int k"
  unfolding assms(1) using assms(2,3) by (rule binary64_scaled)

lemma binary64_tenth: "binary64 (1 / 10) = 3602879701896397 / 36028797018963968"
  using binary64_at[of "1 / 10" "72057594037927936 / 10" "- 56"]
  by (simp add: powr_minus round_to_even_def)

lemma binary64_c: "binary64 (3602879701896397 / 36028797018963968) = 3602879701896397 / 36028797018963968"
  using binary64_at[of "3602879701896397 / 36028797018963968" "7205759403792794" "- 56"]
  by (simp add: powr_minus round_to_even_def)

lemma binary64_2c: "binary64 (3602879701896397 / 18014398509481984) = 3602879701896397 / 18014398509481984"
  using binary64_at[of "3602879701896397 / 18014398509481984" "7205759403792794" "- 55"]
  by (simp add: powr_minus round_to_even_def)

lemma binary64_3c: "binary64 (10808639105689191 / 36028797018963968) = 1351079888211149 / 4503599627370496"
  using binary64_at[of "10808639105689191 / 36028797018963968" "10808639105689191 / 2" "- 54"]
  by (simp add: powr_minus round_to_even_def)

lemma binary64_mean: "binary64 (1351079888211149 / 13510798882111488) = 7205759403792795 / 72057594037927936"
  using binary64_at[of "1351079888211149 / 13510798882111488" "21617278211378384 / 3" "- 56"]
  by (simp add: powr_minus round_to_even_def)


lemma binary64_dv: "binary64 (- (1 / 72057594037927936)) = - (1 / 72057594037927936)"
  using binary64_at[of "- (1 / 72057594037927936)" "- 4503599627370496" "- 108"]
  by (simp add: powr_minus round_to_even_def)

lemma binary64_sq:
  "binary64 (1 / 5192296858534827628530496329220096) = 1 / 5192296858534827628530496329220096"
  using binary64_at[of "1 / 5192296858534827628530496329220096" "4503599627370496" "- 164"]
  by (simp add: powr_minus round_to_even_def)

lemma binary64_2sq:
  "binary64 (1 / 2596148429267413814265248164610048) = 1 / 2596148429267413814265248164610048"
  using binary64_at[of "1 / 2596148429267413814265248164610048" "4503599627370496" "- 163"]
  by (simp add: powr_minus round_to_even_def)

lemma binary64_3sq:
  "binary64 (3 / 5192296858534827628530496329220096) = 3 / 5192296858534827628530496329220096"
  using binary64_at[of "3 / 5192296858534827628530496329220096" "6755399441055744" "- 163"]
  by (simp add: powr_minus round_to_even_def)

lemma binary64_std: "binary64 (1 / 72057594037927936) = 1 / 72057594037927936"
  using binary64_at[of "1 / 72057594037927936" "4503599627370496" "- 108"]
  by (simp add: powr_minus round_to_even_def)

lemma binary64_minus_one: "binary64 (- 1) = - 1"
  using binary64_at[of "- 1" "- 4503599627370496" "- 52"]
  by (simp add: powr_minus round_to_even_def)


lemma sqrt_variance: "sqrt (1 / 5192296858534827628530496329220096) = 1 / 72057594037927936"
  by (rule real_sqrt_unique) (simp_all add: power2_eq_square)

text \<open>
  Claim C7. On binary64 numbers a column that is constant in the input need not become all
  zeros. The literal \<^verbatim>\<open>0.1\<close> denotes the number \<open>3602879701896397 / 2 ^ 55\<close>. On the matrix of
  three rows \<^verbatim>\<open>[0.1]\<close> the column sum rounds up at the tie \<open>0.2 + 0.1\<close>, the mean is one unit in
  the last place above \<^verbatim>\<open>0.1\<close>, every deviation is \<open>- 2 ^ - 56\<close>, the standard deviation is
  \<open>2 ^ - 56\<close> and not zero, so the scale is not forced to 1 and every cell of the output is
  \<open>- 1\<close>: the output column has mean \<open>- 1\<close> and standard deviation 0.
\<close>

theorem standardize_constant_column_not_zeroed:
  "binary64 (1 / 10) = 3602879701896397 / 36028797018963968 \<and>
   constant_column (column [[3602879701896397 / 36028797018963968],
                            [3602879701896397 / 36028797018963968],
                            [3602879701896397 / 36028797018963968]] 0) \<and>
   standardizeData_rounded rounded
     [[Fin (3602879701896397 / 36028797018963968)],
      [Fin (3602879701896397 / 36028797018963968)],
      [Fin (3602879701896397 / 36028797018963968)]]
   = [[Fin (- 1)], [Fin (- 1)], [Fin (- 1)]]"
proof -
  let ?c = "Fin (3602879701896397 / 36028797018963968)"
  let ?D = "[[?c], [?c], [?c]]"
  have n: "Fin (real (length ?D)) = Fin 3" by simp
  have d: "length (?D ! 0) = Suc 0" by simp
  have colsums: "foldl (accumulate_row_rounded rounded (\<lambda>val i. val)) (replicate (Suc 0) (Fin 0)) ?D
      = [Fin (1351079888211149 / 4503599627370496)]"
    by (simp add: accumulate_row_rounded_def wr_def rd_def binary64_c binary64_2c binary64_3c)
  have means: "map (\<lambda>sum. rounded (jsdiv sum (Fin 3))) [Fin (1351079888211149 / 4503599627370496)]
      = [Fin (7205759403792795 / 72057594037927936)]"
    by (simp add: binary64_mean)
  have sqs: "foldl (accumulate_row_rounded rounded
            (\<lambda>val i. rounded (jsmul
               (rounded (jssub val (rd [Fin (7205759403792795 / 72057594037927936)] i)))
               (rounded (jssub val (rd [Fin (7205759403792795 / 72057594037927936)] i))))))
     (replicate (Suc 0) (Fin 0)) ?D
   = [Fin (3 / 5192296858534827628530496329220096)]"
    by (simp add: accumulate_row_rounded_def wr_def rd_def jssub_def
          binary64_dv binary64_sq binary64_2sq binary64_3sq)
  have stds: "map (\<lambda>sum. if jseq (rounded (jssqrt (rounded (jsdiv sum (Fin 3))))) (Fin 0) then Fin 1
                          else rounded (jssqrt (rounded (jsdiv sum (Fin 3)))))
               [Fin (3 / 5192296858534827628530496329220096)]
      = [Fin (1 / 72057594037927936)]"
    by (simp add: binary64_sq binary64_std sqrt_variance jseq_def)
  have out: "map (\<lambda>row. map (\<lambda>i. rounded (jsdiv (rounded (jssub (row ! i)
                 (rd [Fin (7205759403792795 / 72057594037927936)] i)))
                 (rd [Fin (1 / 72057594037927936)] i))) [0..<length row]) ?D
      = [[Fin (- 1)], [Fin (- 1)], [Fin (- 1)]]"
    by (simp add: rd_def jssub_def binary64_dv binary64_minus_one)
  have "standardizeData_rounded rounded ?D
      = map (\<lambda>row. map (\<lambda>i. rounded (jsdiv (rounded (jssub (row ! i)
                 (rd [Fin (7205759403792795 / 72057594037927936)] i)))
                 (rd [Fin (1 / 72057594037927936)] i))) [0..<length row]) ?D"
    unfolding standardizeData_rounded_def Let_def n d colsums means sqs stds
    by simp
  then have "standardizeData_rounded rounded ?D = [[Fin (- 1)], [Fin (- 1)], [Fin (- 1)]]"
    unfolding out .
  moreover have "constant_column (column [[3602879701896397 / 36028797018963968],
                            [3602879701896397 / 36028797018963968],
                            [3602879701896397 / 36028797018963968 :: real]] 0)"
    by (simp add: constant_column_def column_def)
  ultimately show ?thesis using binary64_tenth by simp
qed

section \<open>Verification: K-means seeding and assignment\<close>

lemma random_index_range:
  assumes "random_ok rng" and "0 < n"
  shows "0 \<le> random_index rng p n \<and> random_index rng p n < int n"
proof -
  have r: "0 \<le> rng p" "rng p < 1" using assms(1) by (simp_all add: random_ok_def)
  have "rng p * real n < real n" using r assms(2) by simp
  then have "\<lfloor>rng p * real n\<rfloor> < int n" by (simp add: floor_less_iff)
  moreover have "0 \<le> rng p * real n" using r by simp
  ultimately show ?thesis by (simp add: random_index_def)
qed

lemma select_loop_bound: "select_loop r ps j c = 0 \<or> select_loop r ps j c < j + length ps"
proof (induction ps arbitrary: j c)
  case Nil show ?case by simp
next
  case (Cons a ps)
  show ?case using Cons[of "Suc j" "jsadd c a"] by (auto simp: Let_def)
qed

lemma select_loop_in_range: "ps \<noteq> [] \<Longrightarrow> select_loop r ps 0 c < length ps"
  using select_loop_bound[of r ps 0 c] by auto

lemma seed_step_total:
  assumes "random_ok rng" and "data \<noteq> []"
  shows "\<exists>s'. seed_step rng data s = Inr s' \<and> length (chosen s') = Suc (length (chosen s))"
proof -
  have n: "0 < length data" using assms(2) by simp
  have a: "copy_row data (random_index rng (pos s) (length data)) = Inr (data ! nat (random_index rng (pos s) (length data)))"
    using random_index_range[OF assms(1) n, of "pos s"] by (simp add: copy_row_def)
  have b: "copy_row data (int (select_loop r (map f (seed_distances data cs)) 0 c))
        = Inr (data ! select_loop r (map f (seed_distances data cs)) 0 c)" for r f cs c
    using select_loop_in_range[of "map f (seed_distances data cs)" r c] assms(2)
    by (simp add: copy_row_def seed_distances_def)
  show ?thesis
    by (simp add: seed_step_def Let_def a b)
qed

lemma repeat_steps_total:
  assumes "\<And>s. \<exists>s'. body s = Inr s' \<and> size_of s' = Suc (size_of s)"
  shows "\<exists>s'. repeat_steps m body s = Inr s' \<and> size_of s' = size_of s + m"
proof (induction m arbitrary: s)
  case 0 show ?case by simp
next
  case (Suc m)
  obtain s1 where s1: "body s = Inr s1" "size_of s1 = Suc (size_of s)" using assms by blast
  then show ?case using Suc[of s1] by simp
qed

lemma initializeCentroids_total:
  assumes "random_ok rng" and "data \<noteq> []"
  shows "\<exists>cs p'. initializeCentroids rng p data k = Inr (cs, p') \<and> length cs = Suc (nat (k - 1))"
proof -
  have n: "0 < length data" using assms(2) by simp
  have a: "copy_row data (random_index rng p (length data)) = Inr (data ! nat (random_index rng p (length data)))"
    using random_index_range[OF assms(1) n, of p] by (simp add: copy_row_def)
  obtain s where "repeat_steps (nat (k - 1)) (seed_step rng data)
       \<lparr>chosen = [data ! nat (random_index rng p (length data))], picks = [random_index rng p (length data)], pos = Suc p\<rparr> = Inr s"
     "length (chosen s) = Suc (nat (k - 1))"
    using repeat_steps_total[of "seed_step rng data" "\<lambda>s. length (chosen s)", OF seed_step_total[OF assms]]
    by fastforce
  then show ?thesis
    by (simp add: initializeCentroids_def seed_centroids_def Let_def a)
qed

lemma nearest_prefix:
  "snd (foldl (\<lambda>(minDistance, minIndex) j.
                   let distance = euclideanDistance point (cs ! j)
                   in if jslt distance minDistance then (distance, j) else (minDistance, minIndex))
            (PInf, 0) [0..<m]) < max 1 m"
proof (induction m)
  case 0 show ?case by simp
next
  case (Suc m)
  then show ?case by (auto simp: Let_def split: prod.splits)
qed

lemma nearest_bound: "nearest point cs k < max 1 (nat k)"
  unfolding nearest_def by (rule nearest_prefix)

lemma assign_labels_prefix:
  "m \<le> length labs \<Longrightarrow>
   fst (foldl (\<lambda>(ls, changed) i.
              let minIndex = nearest (data ! i) cs k
              in if ls ! i \<noteq> minIndex then (ls[i := minIndex], True) else (ls, changed))
       (labs, False) [0..<m]) = map (\<lambda>i. nearest (data ! i) cs k) [0..<m] @ drop m labs"
proof (induction m)
  case 0 show ?case by simp
next
  case (Suc m)
  then have m: "m < length labs" by simp
  obtain ls ch where st: "foldl (\<lambda>(ls, changed) i.
              let minIndex = nearest (data ! i) cs k
              in if ls ! i \<noteq> minIndex then (ls[i := minIndex], True) else (ls, changed))
       (labs, False) [0..<m] = (ls, ch)" by (cases "foldl (\<lambda>(ls, changed) i.
              let minIndex = nearest (data ! i) cs k
              in if ls ! i \<noteq> minIndex then (ls[i := minIndex], True) else (ls, changed))
       (labs, False) [0..<m]") auto
  have ls: "ls = map (\<lambda>i. nearest (data ! i) cs k) [0..<m] @ drop m labs"
    using Suc.IH m st by simp
  have upd: "ls[m := v] = map (\<lambda>i. nearest (data ! i) cs k) [0..<m] @ [v] @ drop (Suc m) labs" for v
    unfolding ls using m by (simp add: list_update_append upd_conv_take_nth_drop)
  have same: "ls ! m = v \<Longrightarrow> ls = map (\<lambda>i. nearest (data ! i) cs k) [0..<m] @ [v] @ drop (Suc m) labs" for v
    using upd[of v] by (metis list_update_id)
  show ?case
    using st upd same by (auto simp: Let_def)
qed

lemma assign_labels_fst:
  "length labs = length data \<Longrightarrow>
   fst (assign_labels data cs k labs) = map (\<lambda>i. nearest (data ! i) cs k) [0..<length data]"
  unfolding assign_labels_def using assign_labels_prefix[of "length data" labs data cs k] by simp

section \<open>Verification: the K-means update step\<close>

lemma assigned_Suc:
  "assigned labs c (Suc m) = (if labs ! m = c then assigned labs c m @ [m] else assigned labs c m)"
  by (simp add: assigned_def)

lemma accumulate_clusters_prefix:
  assumes "\<forall>i<m. labs ! i < k"
  shows "foldl (\<lambda>acc i. case acc of
                Inl e \<Rightarrow> Inl e
              | Inr (newCentroids, counts) \<Rightarrow>
                  let label = labs ! i
                  in if k \<le> label then Inl TypeError
                     else Inr (newCentroids[label := map (\<lambda>j. jsadd (newCentroids ! label ! j) (rd (data ! i) j)) [0..<d]],
                               counts[label := counts ! label + 1]))
       (Inr (replicate k (replicate d (Fin 0)), replicate k 0)) [0..<m]
     = Inr (map (\<lambda>c. map (\<lambda>j. foldl jsadd (Fin 0) (map (\<lambda>i. rd (data ! i) j) (assigned labs c m))) [0..<d]) [0..<k],
            map (\<lambda>c. length (assigned labs c m)) [0..<k])"
  using assms
proof (induction m)
  case 0
  show ?case by (simp add: assigned_def list_eq_iff_nth_eq)
next
  case (Suc m)
  then have lab: "labs ! m < k" and prev: "\<forall>i<m. labs ! i < k" by simp_all
  let ?nc = "\<lambda>m. map (\<lambda>c. map (\<lambda>j. foldl jsadd (Fin 0) (map (\<lambda>i. rd (data ! i) j) (assigned labs c m))) [0..<d]) [0..<k]"
  let ?ct = "\<lambda>m. map (\<lambda>c. length (assigned labs c m)) [0..<k]"
  have nc: "(?nc m)[labs ! m := map (\<lambda>j. jsadd (?nc m ! (labs ! m) ! j) (rd (data ! m) j)) [0..<d]] = ?nc (Suc m)"
    using lab by (auto simp: list_eq_iff_nth_eq nth_list_update assigned_Suc)
  have ct: "(?ct m)[labs ! m := ?ct m ! (labs ! m) + 1] = ?ct (Suc m)"
    using lab by (auto simp: list_eq_iff_nth_eq nth_list_update assigned_Suc)
  show ?case
    using Suc.IH[OF prev] lab nc ct by (simp add: Let_def)
qed

lemma accumulate_clusters_eq:
  assumes "\<forall>i<length data. labs ! i < k"
  shows "accumulate_clusters data labs k d
     = Inr (map (\<lambda>c. map (\<lambda>j. foldl jsadd (Fin 0) (map (\<lambda>i. rd (data ! i) j) (assigned labs c (length data)))) [0..<d]) [0..<k],
            map (\<lambda>c. length (assigned labs c (length data))) [0..<k])"
  unfolding accumulate_clusters_def using assms by (rule accumulate_clusters_prefix)



lemma replace_prefix:
  "m \<le> length cs \<Longrightarrow>
   foldl (\<lambda>c i. if P i then c[i := new c i] else c) cs [0..<m]
     = map (\<lambda>i. if P i then new cs i else cs ! i) [0..<m] @ drop m cs"
  if new: "\<And>c i. i < length cs \<Longrightarrow> length c = length cs \<Longrightarrow> c ! i = cs ! i \<Longrightarrow> new c i = new cs i"
proof (induction m)
  case 0 show ?case by simp
next
  case (Suc m)
  then have m: "m < length cs" by simp
  let ?c = "map (\<lambda>i. if P i then new cs i else cs ! i) [0..<m] @ drop m cs"
  have cm: "?c ! m = cs ! m" "length ?c = length cs" using m by (simp_all add: nth_append)
  have n: "new ?c m = new cs m" using new[OF m cm(2) cm(1)] .
  have upd: "?c[m := x] = map (\<lambda>i. if P i then new cs i else cs ! i) [0..<m] @ [x] @ drop (Suc m) cs" for x
    using m by (simp add: list_update_append upd_conv_take_nth_drop)
  have keep: "?c = map (\<lambda>i. if P i then new cs i else cs ! i) [0..<m] @ [cs ! m] @ drop (Suc m) cs"
    using m by (simp add: Cons_nth_drop_Suc)
  show ?case
  proof (cases "P m")
    case True
    then show ?thesis using Suc m n upd[of "new cs m"] by simp
  next
    case False
    then show ?thesis using Suc m keep by simp
  qed
qed

lemma update_centroids_eq:
  assumes k: "0 \<le> k" and labs: "\<forall>i<length data. labs ! i < nat k" and len: "length cs = nat k"
  shows "update_centroids data labs cs k d =
     Inr (map (\<lambda>c. if 0 < length (assigned labs c (length data))
                    then foldl (\<lambda>row j. wr row j
                            (jsdiv (foldl jsadd (Fin 0) (map (\<lambda>i. rd (data ! i) j) (assigned labs c (length data))))
                                   (Fin (real (length (assigned labs c (length data)))))))
                          (cs ! c) [0..<d]
                    else cs ! c) [0..<nat k])"
proof -
  let ?nc = "map (\<lambda>c. map (\<lambda>j. foldl jsadd (Fin 0) (map (\<lambda>i. rd (data ! i) j) (assigned labs c (length data)))) [0..<d]) [0..<nat k]"
  let ?ct = "map (\<lambda>c. length (assigned labs c (length data))) [0..<nat k]"
  let ?new = "\<lambda>c i. foldl (\<lambda>row j. wr row j (jsdiv (?nc ! i ! j) (Fin (real (?ct ! i))))) (c ! i) [0..<d]"
  have "foldl (\<lambda>c i. if 0 < ?ct ! i then c[i := ?new c i] else c) cs [0..<nat k]
      = map (\<lambda>i. if 0 < ?ct ! i then ?new cs i else cs ! i) [0..<nat k] @ drop (nat k) cs"
    by (rule replace_prefix) (simp_all add: len)
  also have "\<dots> = map (\<lambda>c. if 0 < length (assigned labs c (length data))
                    then foldl (\<lambda>row j. wr row j
                            (jsdiv (foldl jsadd (Fin 0) (map (\<lambda>i. rd (data ! i) j) (assigned labs c (length data))))
                                   (Fin (real (length (assigned labs c (length data)))))))
                          (cs ! c) [0..<d]
                    else cs ! c) [0..<nat k]"
    using len by (auto intro!: foldl_cong)
  finally show ?thesis
    using k by (simp add: update_centroids_def accumulate_clusters_eq[OF labs])
qed

section \<open>Verification: the Lloyd loop and the inertia\<close>

lemma accumulate_clusters_Inr_prefix:
  "foldl (\<lambda>acc i. case acc of
                Inl e \<Rightarrow> Inl e
              | Inr (newCentroids, counts) \<Rightarrow>
                  let label = labs ! i
                  in if k \<le> label then Inl TypeError
                     else Inr (newCentroids[label := map (\<lambda>j. jsadd (newCentroids ! label ! j) (rd (data ! i) j)) [0..<d]],
                               counts[label := counts ! label + 1]))
       start [0..<m] = Inr x \<Longrightarrow> \<forall>i<m. labs ! i < k"
proof (induction m arbitrary: x)
  case 0 show ?case by simp
next
  case (Suc m)
  then show ?case
    by (auto simp: Let_def less_Suc_eq split: sum.splits prod.splits if_splits)
qed

lemma accumulate_clusters_Inr:
  "accumulate_clusters data labs k d = Inr x \<Longrightarrow> \<forall>i<length data. labs ! i < k"
  unfolding accumulate_clusters_def by (rule accumulate_clusters_Inr_prefix)

lemma update_centroids_Inr:
  assumes "update_centroids data labs cs k d = Inr cs'"
  shows "0 \<le> k \<and> (\<forall>i<length data. labs ! i < nat k)"
  using assms accumulate_clusters_Inr[of data labs "nat k" d]
  by (auto simp: update_centroids_def split: if_splits sum.splits)

lemma length_replace:
  "length (foldl (\<lambda>c i. if P i then c[i := new c i] else c) cs is) = length cs"
  by (induction "is" arbitrary: cs) simp_all

lemma update_centroids_length:
  assumes "update_centroids data labs cs k d = Inr cs'"
  shows "length cs' = length cs"
  using assms
  by (auto simp: update_centroids_def length_replace split: if_splits sum.splits)

lemma assign_labels_range:
  assumes "length labs = length data" and "assign_labels data cs k labs = (labs', changed')"
  shows "length labs' = length data \<and> (\<forall>i<length data. labs' ! i < max 1 (nat k))"
proof -
  have "labs' = map (\<lambda>i. nearest (data ! i) cs k) [0..<length data]"
    using assign_labels_fst[OF assms(1), of cs k] assms(2) by simp
  then show ?thesis using nearest_bound by simp
qed

lemma lloyd_returns:
  assumes "lloyd data k d maxIterations labs cs iterations changed = Inr (labs', cs')"
    and "length labs = length data" and "\<forall>i<length data. labs ! i < length cs" and "nat k \<le> length cs"
  shows "length labs' = length data \<and> (\<forall>i<length data. labs' ! i < length cs') \<and> length cs' = length cs"
  using assms
proof (induction data k d maxIterations labs cs iterations changed rule: lloyd.induct)
  case (1 data k d maxIterations labs cs iterations changed)
  show ?case
  proof (cases "changed \<and> iterations < maxIterations")
    case False
    then have "lloyd data k d maxIterations labs cs iterations changed = Inr (labs, cs)"
      by (subst lloyd.simps) auto
    then show ?thesis using "1.prems" by simp
  next
    case True
    obtain labs1 ch1 where a: "assign_labels data cs k labs = (labs1, ch1)"
      by (cases "assign_labels data cs k labs") auto
    obtain cs1 where u: "update_centroids data labs1 cs k d = Inr cs1"
      using "1.prems"(1) True a by (auto simp: lloyd.simps[of data k d maxIterations labs cs] split: sum.splits)
    have rec: "lloyd data k d maxIterations labs1 cs1 (iterations + 1) ch1 = Inr (labs', cs')"
      using "1.prems"(1) True a u by (simp add: lloyd.simps[of data k d maxIterations labs cs])
    have l1: "length labs1 = length data" using assign_labels_range[OF "1.prems"(2) a] by simp
    have c1: "length cs1 = length cs" using u by (rule update_centroids_length)
    have r1: "\<forall>i<length data. labs1 ! i < length cs1"
      using update_centroids_Inr[OF u] "1.prems"(4) c1 by fastforce
    have k1: "nat k \<le> length cs1" using "1.prems"(4) c1 by simp
    have "length labs' = length data \<and> (\<forall>i<length data. labs' ! i < length cs') \<and> length cs' = length cs1"
      by (rule "1.IH"[OF True a[symmetric] u rec l1 r1 k1])
    then show ?thesis unfolding c1 .
  qed
qed

lemma lloyd_total:
  assumes "1 \<le> k" and "length cs = nat k" and "length labs = length data"
  shows "\<exists>labs' cs'. lloyd data k d maxIterations labs cs iterations changed = Inr (labs', cs')"
  using assms
proof (induction data k d maxIterations labs cs iterations changed rule: lloyd.induct)
  case (1 data k d maxIterations labs cs iterations changed)
  show ?case
  proof (cases "changed \<and> iterations < maxIterations")
    case False
    then have "lloyd data k d maxIterations labs cs iterations changed = Inr (labs, cs)"
      by (subst lloyd.simps) auto
    then show ?thesis by simp
  next
    case True
    obtain labs1 ch1 where a: "assign_labels data cs k labs = (labs1, ch1)"
      by (cases "assign_labels data cs k labs") auto
    have mx: "max 1 (nat k) = nat k" using "1.prems"(1) by arith
    have l1: "length labs1 = length data" and r1: "\<forall>i<length data. labs1 ! i < nat k"
      using assign_labels_range[OF "1.prems"(3) a] unfolding mx by simp_all
    obtain cs1 where u: "update_centroids data labs1 cs k d = Inr cs1"
      using update_centroids_eq[of k data labs1 cs d] "1.prems" r1 by simp
    have c1: "length cs1 = nat k" using update_centroids_length[OF u] "1.prems"(2) by simp
    show ?thesis
      using "1.IH"[OF True a[symmetric] u "1.prems"(1) c1 l1] True a u
      by (simp add: lloyd.simps[of data k d maxIterations labs cs])
  qed
qed

lemma inertia_fold:
  "foldl (\<lambda>acc i. jsadd acc (f i)) a is = foldl jsadd a (map f is)"
  by (induction "is" arbitrary: a) simp_all

lemma performKMeans_total:
  assumes "random_ok rng" and "1 \<le> k"
  shows "\<exists>res p'. performKMeans rng p data k maxIterations = Inr (res, p')"
proof (cases "length data = 0 \<or> length (data ! 0) = 0")
  case True
  then show ?thesis by (simp add: performKMeans_def)
next
  case False
  then have ne: "data \<noteq> []" by auto
  obtain cs0 p0 where i: "initializeCentroids rng p data k = Inr (cs0, p0)" "length cs0 = Suc (nat (k - 1))"
    using initializeCentroids_total[of rng data p k] assms ne by blast
  have "length cs0 = nat k" using i(2) assms(2) by arith
  then obtain labs cs where "lloyd data k (length (data ! 0)) maxIterations (replicate (length data) 0) cs0 0 True = Inr (labs, cs)"
    using lloyd_total[of k cs0 "replicate (length data) 0" data "length (data ! 0)" maxIterations 0 True] assms(2)
    by auto
  then show ?thesis using False i by (simp add: performKMeans_def Let_def)
qed

lemma performKMeans_returns:
  assumes "performKMeans rng p data k maxIterations = Inr (res, p')"
  shows "inertia res = foldl jsadd (Fin 0)
         (map (\<lambda>i. euclideanDistance (data ! i) (centroids res ! (labels res ! i))) [0..<length (labels res)])
      \<and> (\<forall>i<length (labels res). labels res ! i < length (centroids res))
      \<and> (if length data = 0 \<or> length (data ! 0) = 0 then labels res = [] \<and> centroids res = []
          else length (labels res) = length data \<and> length (centroids res) = Suc (nat (k - 1)))"
proof -
  note r = assms
  show "inertia res = foldl jsadd (Fin 0)
         (map (\<lambda>i. euclideanDistance (data ! i) (centroids res ! (labels res ! i))) [0..<length (labels res)])
      \<and> (\<forall>i<length (labels res). labels res ! i < length (centroids res))
      \<and> (if length data = 0 \<or> length (data ! 0) = 0 then labels res = [] \<and> centroids res = []
          else length (labels res) = length data \<and> length (centroids res) = Suc (nat (k - 1)))"
  proof (cases "length data = 0 \<or> length (data ! 0) = 0")
    case True
    then have "res = \<lparr>labels = [], centroids = [], inertia = Fin 0\<rparr>"
      using r by (simp add: performKMeans_def)
    then show ?thesis using True by simp
  next
    case False
    obtain cs0 p0 where i: "initializeCentroids rng p data k = Inr (cs0, p0)"
      using r False by (cases "initializeCentroids rng p data k") (auto simp: performKMeans_def Let_def)
    obtain labs cs where l: "lloyd data k (length (data ! 0)) maxIterations (replicate (length data) 0) cs0 0 True = Inr (labs, cs)"
      using r False i
      by (cases "lloyd data k (length (data ! 0)) maxIterations (replicate (length data) 0) cs0 0 True")
         (auto simp: performKMeans_def Let_def)
    have res: "res = \<lparr>labels = labs, centroids = cs,
        inertia = foldl (\<lambda>acc i. jsadd acc (euclideanDistance (data ! i) (cs ! (labs ! i)))) (Fin 0) [0..<length data]\<rparr>"
      using r False i l by (simp add: performKMeans_def Let_def)
    have len0: "length cs0 = Suc (nat (k - 1))"
    proof -
      obtain s where s: "seed_centroids rng p data k = Inr s" "cs0 = chosen s"
        using i by (cases "seed_centroids rng p data k") (auto simp: initializeCentroids_def)
      obtain row where row: "copy_row data (random_index rng p (length data)) = Inr row"
        using s(1) by (cases "copy_row data (random_index rng p (length data))") (auto simp: seed_centroids_def Let_def)
      have rs: "repeat_steps (nat (k - 1)) (seed_step rng data)
          \<lparr>chosen = [row], picks = [random_index rng p (length data)], pos = Suc p\<rparr> = Inr s"
        using s(1) row by (simp add: seed_centroids_def Let_def)
      have step: "seed_step rng data t = Inr t' \<Longrightarrow> length (chosen t') = Suc (length (chosen t))" for t t'
        by (auto simp: seed_step_def Let_def split: if_splits sum.splits)
      have "repeat_steps m (seed_step rng data) t = Inr t' \<Longrightarrow> length (chosen t') = length (chosen t) + m" for m t t'
      proof (induction m arbitrary: t)
        case 0 then show ?case by simp
      next
        case (Suc m)
        then obtain t1 where t1: "seed_step rng data t = Inr t1" "repeat_steps m (seed_step rng data) t1 = Inr t'"
          by (auto split: sum.splits)
        show ?case using Suc.IH[OF t1(2)] step[OF t1(1)] by simp
      qed
      from this[OF rs] show ?thesis using s(2) by simp
    qed
    have inv: "length labs = length data \<and> (\<forall>i<length data. labs ! i < length cs) \<and> length cs = length cs0"
    proof -
      have a: "length (replicate (length data) (0::nat)) = length data" by simp
      have b: "\<forall>i<length data. replicate (length data) (0::nat) ! i < length cs0" using len0 by simp
      have c: "nat k \<le> length cs0" using len0 by arith
      show ?thesis by (rule lloyd_returns[OF l a b c])
    qed
    have sumeq: "foldl (\<lambda>acc i. jsadd acc (euclideanDistance (data ! i) (cs ! (labs ! i)))) (Fin 0) [0..<length data]
        = foldl jsadd (Fin 0) (map (\<lambda>i. euclideanDistance (data ! i) (cs ! (labs ! i))) [0..<length data])"
      by (rule inertia_fold)
    have inv1: "length labs = length data" and inv2: "\<forall>i<length data. labs ! i < length cs"
      and inv3: "length cs = Suc (nat (k - 1))"
      using inv len0 by auto
    show ?thesis using False inv1 inv2 inv3 by (simp add: res sumeq)
  qed
qed

text \<open>
  Claim C1. Whenever \<^verbatim>\<open>performKMeans\<close> returns, for any matrix, any \<open>k\<close> and any
  \<open>maxIterations\<close>, the returned inertia is the left-to-right sum, over all labelled rows, of
  the Euclidean distance (the square root of the sum of squared differences, not its square)
  from the row to the returned centroid of its returned label; every returned label is an
  index of the returned centroids, and a matrix with a non-empty first row gets one label per
  row. It does return whenever \<open>k \<ge> 1\<close> and the random source keeps its contract.
\<close>

theorem inertia_is_sum_of_distances:
  "(random_ok rng \<and> 1 \<le> k \<longrightarrow> (\<exists>res p'. performKMeans rng p data k maxIterations = Inr (res, p'))) \<and>
   (\<forall>res p'. performKMeans rng p data k maxIterations = Inr (res, p') \<longrightarrow>
      inertia res = foldl jsadd (Fin 0)
         (map (\<lambda>i. euclideanDistance (data ! i) (centroids res ! (labels res ! i))) [0..<length (labels res)]) \<and>
      (\<forall>i<length (labels res). labels res ! i < length (centroids res)) \<and>
      (if length data = 0 \<or> length (data ! 0) = 0 then labels res = [] else length (labels res) = length data))"
proof (rule conjI)
  show "random_ok rng \<and> 1 \<le> k \<longrightarrow> (\<exists>res p'. performKMeans rng p data k maxIterations = Inr (res, p'))"
    using performKMeans_total[of rng k p data maxIterations] by blast
next
  show "\<forall>res p'. performKMeans rng p data k maxIterations = Inr (res, p') \<longrightarrow>
      inertia res = foldl jsadd (Fin 0)
         (map (\<lambda>i. euclideanDistance (data ! i) (centroids res ! (labels res ! i))) [0..<length (labels res)]) \<and>
      (\<forall>i<length (labels res). labels res ! i < length (centroids res)) \<and>
      (if length data = 0 \<or> length (data ! 0) = 0 then labels res = [] else length (labels res) = length data)"
  proof (intro allI impI)
    fix res p'
    assume r: "performKMeans rng p data k maxIterations = Inr (res, p')"
    have 1: "inertia res = foldl jsadd (Fin 0)
         (map (\<lambda>i. euclideanDistance (data ! i) (centroids res ! (labels res ! i))) [0..<length (labels res)])"
      and 2: "\<forall>i<length (labels res). labels res ! i < length (centroids res)"
      and 3: "if length data = 0 \<or> length (data ! 0) = 0 then labels res = [] \<and> centroids res = []
          else length (labels res) = length data \<and> length (centroids res) = Suc (nat (k - 1))"
      using performKMeans_returns[OF r] by blast+
    have "if length data = 0 \<or> length (data ! 0) = 0 then labels res = [] else length (labels res) = length data"
      using 3 by (simp split: if_splits)
    then show "inertia res = foldl jsadd (Fin 0)
         (map (\<lambda>i. euclideanDistance (data ! i) (centroids res ! (labels res ! i))) [0..<length (labels res)]) \<and>
      (\<forall>i<length (labels res). labels res ! i < length (centroids res)) \<and>
      (if length data = 0 \<or> length (data ! 0) = 0 then labels res = [] else length (labels res) = length data)"
      using 1 2 by blast
  qed
qed

theorem inertia_is_sum_of_distances_witness:
  "random_ok (\<lambda>_. 0) \<and> (1::int) \<le> 1 \<and>
   performKMeans (\<lambda>_. 0) 0 [[Fin 0], [Fin 4]] 1 100
     = Inr (\<lparr>labels = [0, 0], centroids = [[Fin 2]], inertia = Fin 4\<rparr>, 1) \<and>
   Fin 4 = foldl jsadd (Fin 0) (map (\<lambda>i. euclideanDistance ([[Fin 0], [Fin 4]] ! i) ([[Fin 2]] ! ([0, 0] ! i))) [0..<2])"
proof -
  have e: "performKMeans (\<lambda>_. 0) 0 [[Fin 0], [Fin 4]] 1 100
     = Inr (\<lparr>labels = [0, 0], centroids = [[Fin 2]], inertia = Fin 4\<rparr>, 1)"
    by (simp add: performKMeans_def initializeCentroids_def seed_centroids_def random_index_def copy_row_def
     assign_labels_def nearest_def euclideanDistance_def rd_def jssub_def update_centroids_def accumulate_clusters_def wr_def lloyd.simps)
  show ?thesis
    using inertia_is_sum_of_distances[of "\<lambda>_. 0" 1 0 "[[Fin 0], [Fin 4]]" 100] e
    by (simp add: random_ok_def numeral_2_eq_2)
qed

section \<open>Verification: centroids after an update\<close>

lemma foldl_jsadd_Fin: "foldl jsadd (Fin a) (map Fin xs) = Fin (a + sum_list xs)"
  by (induction xs arbitrary: a) (simp_all add: add.assoc)





section \<open>Verification: the elbow heuristic\<close>

lemma score_loop_total:
  assumes "random_ok rng" and "\<forall>k\<in>set ks. 1 \<le> k"
  shows "\<exists>sc p'. score_loop rng data method ks acc p = Inr (sc, p') \<and> length sc = length acc + length ks"
  using assms(2)
proof (induction ks arbitrary: acc p)
  case Nil show ?case by simp
next
  case (Cons k ks)
  obtain res p1 where r: "performKMeans rng p data k 100 = Inr (res, p1)"
    using performKMeans_total[OF assms(1), of k p data 100] Cons.prems by auto
  show ?case
    using Cons.IH[of "acc @ [if method = Elbow then inertia res else calculateSilhouetteScore data (labels res)]" p1]
      Cons.prems r by auto
qed

text \<open>
  Claim C10. With the method \<^verbatim>\<open>elbow\<close> and \<open>maxK \<le> 3\<close>, \<^verbatim>\<open>findOptimalK\<close> returns, for every
  matrix, \<^verbatim>\<open>recommendedK = 2\<close>: the score list has at most two entries, so the list of second
  differences is empty and the index of its maximum stays at its initial 0.
\<close>

theorem elbow_small_maxK_recommends_2:
  assumes "random_ok rng" and "maxK \<le> 3"
  shows "\<exists>r p'. findOptimalK rng p data maxK Elbow = Inr (r, p') \<and>
           length (scores r) \<le> 2 \<and> first_differences (first_differences (scores r)) = [] \<and>
           recommendedK r = 2"
proof -
  have ks: "\<forall>k\<in>set [2..maxK]. 1 \<le> k" by auto
  obtain sc p' where s: "score_loop rng data Elbow [2..maxK] [] p = Inr (sc, p')"
      and len: "length sc = length [2..maxK]"
    using score_loop_total[OF assms(1) ks, of data Elbow "[]" p] by auto
  have "length sc \<le> 2" using len assms(2) by simp
  then have e: "first_differences (first_differences sc) = []"
    by (simp add: first_differences_def)
  show ?thesis
    using s e \<open>length sc \<le> 2\<close> by (simp add: findOptimalK_def Let_def index_of_max_def)
qed

theorem elbow_small_maxK_recommends_2_witness:
  "random_ok (\<lambda>_. 0) \<and> (3::int) \<le> 3 \<and>
   (\<exists>r p'. findOptimalK (\<lambda>_. 0) 0 [[Fin 0], [Fin 4]] 3 Elbow = Inr (r, p') \<and>
           length (scores r) \<le> 2 \<and> first_differences (first_differences (scores r)) = [] \<and>
           recommendedK r = 2)"
  using elbow_small_maxK_recommends_2[of "\<lambda>_. 0" 3 0 "[[Fin 0], [Fin 4]]"]
  by (simp add: random_ok_def)

section \<open>Verification: the silhouette score\<close>


lemma sq_diff_prefix:
  "m \<le> length a \<Longrightarrow> length a \<le> length b \<Longrightarrow>
   foldl (\<lambda>sum i. let diff = jssub (map Fin a ! i) (rd (map Fin b) i) in jsadd sum (jsmul diff diff))
      (Fin 0) [0..<m] = Fin (\<Sum>i\<leftarrow>[0..<m]. (a ! i - b ! i) * (a ! i - b ! i))"
  by (induction m) (simp_all add: rd_def jssub_Fin Let_def)

lemma euclideanDistance_Fin:
  assumes "length a \<le> length b"
  shows "euclideanDistance (map Fin a) (map Fin b) = Fin (sqrt (\<Sum>i\<leftarrow>[0..<length a]. (a ! i - b ! i) * (a ! i - b ! i)))"
proof -
  have "0 \<le> (\<Sum>i\<leftarrow>[0..<length a]. (a ! i - b ! i) * (a ! i - b ! i))"
    by (intro sum_list_nonneg) auto
  moreover have f: "foldl (\<lambda>sum i. let diff = jssub (map Fin a ! i) (rd (map Fin b) i) in jsadd sum (jsmul diff diff))
      (Fin 0) [0..<length (map Fin a)] = Fin (\<Sum>i\<leftarrow>[0..<length a]. (a ! i - b ! i) * (a ! i - b ! i))"
    using sq_diff_prefix[of "length a" a b] assms by simp
  ultimately show ?thesis
    unfolding euclideanDistance_def f by simp
qed




lemma mean_distance_Fin:
  assumes "distances_to data i sel = (Fin t, c)" and "0 \<le> t"
  shows "\<exists>v\<ge>0. (if 0 < c then jsdiv (Fin t) (Fin (real c)) else Fin 0) = Fin v"
  using assms(2) by auto








section \<open>Verification: principal component analysis\<close>




lemma length_deflate: "length (deflate m e v) = length m"
  by (simp add: deflate_def Let_def)

lemma extract_component_counts:
  "length (eigenvalues (found (extract_component rng s))) = Suc (length (eigenvalues (found s))) \<and>
   length (eigenvectors (found (extract_component rng s))) = Suc (length (eigenvectors (found s))) \<and>
   length (remaining (extract_component rng s)) = length (remaining s) \<and>
   rpos (extract_component rng s) = rpos s + length (remaining s)"
  by (simp add: extract_component_def Let_def length_deflate)

lemma extraction_counts:
  "length (eigenvalues (found ((extract_component rng ^^ c) s))) = length (eigenvalues (found s)) + c \<and>
   length (eigenvectors (found ((extract_component rng ^^ c) s))) = length (eigenvectors (found s)) + c \<and>
   length (remaining ((extract_component rng ^^ c) s)) = length (remaining s) \<and>
   rpos ((extract_component rng ^^ c) s) = rpos s + c * length (remaining s)"
proof (induction c)
  case 0 show ?case by simp
next
  case (Suc c)
  show ?case using Suc extract_component_counts[of rng "(extract_component rng ^^ c) s"] by simp
qed

lemma computeEigenvectors_counts:
  "length (eigenvalues (fst (computeEigenvectors rng p m c))) = c \<and>
   length (eigenvectors (fst (computeEigenvectors rng p m c))) = c \<and>
   snd (computeEigenvectors rng p m c) = p + c * length m"
  using extraction_counts[where s="\<lparr>found = \<lparr>eigenvalues = [], eigenvectors = []\<rparr>, remaining = m, rpos = p\<rparr>" and rng=rng and c=c]
  by (simp add: computeEigenvectors_def Let_def)

lemma length_covariance_matrix: "length (covariance_matrix data) = length (data ! 0)"
  by (simp add: covariance_matrix_def Let_def)

lemma pca_eigenResults_counts:
  "length (eigenvalues (fst (pca_eigenResults rng p data))) = length (data ! 0) \<and>
   length (eigenvectors (fst (pca_eigenResults rng p data))) = length (data ! 0) \<and>
   snd (pca_eigenResults rng p data) = p + length (data ! 0) * length (data ! 0)"
  using computeEigenvectors_counts[of rng p "covariance_matrix data" "length (data ! 0)"]
  by (simp add: pca_eigenResults_def length_covariance_matrix)

lemma length_insert_pair: "length (insert_pair a bs) = Suc (length bs)"
  by (induction bs) simp_all

lemma length_sort_pairs: "length (sort_pairs xs) = length xs"
  unfolding sort_pairs_def by (induction xs) (simp_all add: length_insert_pair)

lemma length_slice0: "length (slice0 xs k) = (if k < 0 then nat (int (length xs) + k) else min (nat k) (length xs))"
  by (auto simp: slice0_def)

lemma performPCA_shape:
  assumes "data \<noteq> []" and "data ! 0 \<noteq> []"
  shows "snd (performPCA rng p data numComponents) = p + length (data ! 0) * length (data ! 0) \<and>
    length (projectedData (fst (performPCA rng p data numComponents))) = length data \<and>
    list_all (\<lambda>row. length row = length (components (fst (performPCA rng p data numComponents))))
       (projectedData (fst (performPCA rng p data numComponents))) \<and>
    length (explainedVariance (fst (performPCA rng p data numComponents)))
       = length (components (fst (performPCA rng p data numComponents))) \<and>
    length (components (fst (performPCA rng p data numComponents)))
       = length (slice0 [0..<length (data ! 0)]
           (case numComponents of None \<Rightarrow> int (length (data ! 0)) | Some c \<Rightarrow> if c = 0 then int (length (data ! 0)) else c))"
proof -
  obtain er p' where e: "pca_eigenResults rng p data = (er, p')" by (cases "pca_eigenResults rng p data") auto
  have c: "length (eigenvalues er) = length (data ! 0)" "p' = p + length (data ! 0) * length (data ! 0)"
    using pca_eigenResults_counts[of rng p data] e by simp_all
  have cd: "length (centered_data data) = length data" by (simp add: centered_data_def Let_def)
  show ?thesis
    using assms
    by (simp add: performPCA_def Let_def e c cd length_slice0 length_sort_pairs list_all_iff)
qed

section \<open>Verification: the number of extracted eigenpairs\<close>

text \<open>
  Claim C3, as amended. For every matrix with a non-empty first row of \<open>d\<close> columns,
  \<^verbatim>\<open>performPCA\<close> extracts exactly \<open>d\<close> eigenpairs by power iteration with deflation,
  drawing \<open>d * d\<close> random numbers, whatever component count is requested; a requested
  \<open>k\<close> with \<open>1 \<le> k \<le> d\<close> only selects how many of the sorted pairs are kept (an omitted
  count keeps all \<open>d\<close>).
\<close>

theorem pca_extracts_d_eigenpairs:
  assumes "data \<noteq> []" and "data ! 0 \<noteq> []"
  shows "length (eigenvalues (fst (pca_eigenResults rng p data))) = length (data ! 0) \<and>
         length (eigenvectors (fst (pca_eigenResults rng p data))) = length (data ! 0) \<and>
         snd (performPCA rng p data numComponents) = p + length (data ! 0) * length (data ! 0) \<and>
         (\<forall>k. 1 \<le> k \<and> k \<le> int (length (data ! 0)) \<longrightarrow>
            length (components (fst (performPCA rng p data (Some k)))) = nat k \<and>
            length (explainedVariance (fst (performPCA rng p data (Some k)))) = nat k) \<and>
         length (components (fst (performPCA rng p data None))) = length (data ! 0)"
proof (intro conjI allI impI)
  show "length (eigenvalues (fst (pca_eigenResults rng p data))) = length (data ! 0)"
    using pca_eigenResults_counts[of rng p data] by simp
  show "length (eigenvectors (fst (pca_eigenResults rng p data))) = length (data ! 0)"
    using pca_eigenResults_counts[of rng p data] by simp
  show "snd (performPCA rng p data numComponents) = p + length (data ! 0) * length (data ! 0)"
    using performPCA_shape[OF assms, of rng p numComponents] by simp
  show "length (components (fst (performPCA rng p data None))) = length (data ! 0)"
    using performPCA_shape[OF assms, of rng p None] by (simp add: length_slice0)
next
  fix k :: int
  assume k: "1 \<le> k \<and> k \<le> int (length (data ! 0))"
  then have "nat k \<le> length (data ! 0)" by arith
  then have s: "length (slice0 [0..<length (data ! 0)] k) = nat k"
    using k by (simp add: length_slice0)
  show "length (components (fst (performPCA rng p data (Some k)))) = nat k"
    using performPCA_shape[OF assms, of rng p "Some k"] k s by simp
  show "length (explainedVariance (fst (performPCA rng p data (Some k)))) = nat k"
    using performPCA_shape[OF assms, of rng p "Some k"] k s by simp
qed

theorem pca_extracts_d_eigenpairs_witness:
  "[[Fin 1, Fin 2], [Fin 3, Fin 5]] \<noteq> [] \<and> [[Fin 1, Fin 2], [Fin 3, Fin 5]] ! 0 \<noteq> [] \<and>
   length (eigenvalues (fst (pca_eigenResults (\<lambda>_. 1 / 2) 0 [[Fin 1, Fin 2], [Fin 3, Fin 5]]))) = 2 \<and>
   snd (performPCA (\<lambda>_. 1 / 2) 0 [[Fin 1, Fin 2], [Fin 3, Fin 5]] (Some 1)) = 4 \<and>
   (1::int) \<le> 1 \<and> (1::int) \<le> int (length ([[Fin 1, Fin 2], [Fin 3, Fin 5]] ! 0)) \<and>
   length (components (fst (performPCA (\<lambda>_. 1 / 2) 0 [[Fin 1, Fin 2], [Fin 3, Fin 5]] (Some 1)))) = 1"
  using pca_extracts_d_eigenpairs[of "[[Fin 1, Fin 2], [Fin 3, Fin 5]]" "\<lambda>_. 1 / 2" 0 "Some 1"]
  by simp

text \<open>
  Claim C3 as stated fails: on a matrix of two columns with one component requested, the
  extraction still produces two eigenpairs and draws four random numbers; one is kept.
\<close>

theorem pca_extracts_more_than_requested:
  "length (eigenvalues (fst (pca_eigenResults (\<lambda>_. 1 / 2) 0 [[Fin 1, Fin 2], [Fin 3, Fin 5]]))) = 2 \<and>
   snd (performPCA (\<lambda>_. 1 / 2) 0 [[Fin 1, Fin 2], [Fin 3, Fin 5]] (Some 1)) = 4 \<and>
   length (components (fst (performPCA (\<lambda>_. 1 / 2) 0 [[Fin 1, Fin 2], [Fin 3, Fin 5]] (Some 1)))) = 1"
  using pca_eigenResults_counts[of "\<lambda>_. 1 / 2" 0 "[[Fin 1, Fin 2], [Fin 3, Fin 5]]"]
    performPCA_shape[of "[[Fin 1, Fin 2], [Fin 3, Fin 5]]" "\<lambda>_. 1 / 2" 0 "Some 1"]
  by (simp add: length_slice0)

section \<open>Verification: explained variance ratios\<close>









lemma sum_list_divide_const: "sum_list (map (\<lambda>e. e / s) xs) = sum_list xs / (s::real)"
  by (induction xs) (simp_all add: add_divide_distrib)





section \<open>Verification: matrices whose rows differ in length\<close>




section \<open>Verification: imputation by feature type\<close>

lemma get_prop_set_prop: "get_prop (set_prop p g v) f = (if f = g then v else get_prop p f)"
  by (induction p g v rule: set_prop.induct) (auto simp: get_prop_def)

lemma identify_fold:
  "foldl (\<lambda>acc feature.
                    if feature \<in> set excludeFeatures then acc
                    else if is_number (get_prop s feature)
                         then acc\<lparr>numericalFeatures := numericalFeatures acc @ [feature]\<rparr>
                         else acc\<lparr>categoricalFeatures := categoricalFeatures acc @ [feature]\<rparr>)
             \<lparr>numericalFeatures = ns, categoricalFeatures = cs\<rparr> keys
   = \<lparr>numericalFeatures = ns @ filter (\<lambda>f. f \<notin> set excludeFeatures \<and> is_number (get_prop s f)) keys,
      categoricalFeatures = cs @ filter (\<lambda>f. f \<notin> set excludeFeatures \<and> \<not> is_number (get_prop s f)) keys\<rparr>"
  by (induction keys arbitrary: ns cs) simp_all

lemma identifyFeatureTypes_eq:
  assumes "data \<noteq> []"
  shows "identifyFeatureTypes data
     = \<lparr>numericalFeatures = filter (\<lambda>f. f \<notin> set excludeFeatures \<and> is_number (get_prop (data ! 0) f)) (map fst (data ! 0)),
        categoricalFeatures = filter (\<lambda>f. f \<notin> set excludeFeatures \<and> \<not> is_number (get_prop (data ! 0) f)) (map fst (data ! 0))\<rparr>"
  using assms identify_fold[of "data ! 0" "[]" "[]" "map fst (data ! 0)"]
  by (simp add: identifyFeatureTypes_def Let_def)

lemma numerical_pass_keeps:
  "f \<notin> set gs \<Longrightarrow>
   get_prop (foldl (\<lambda>imputed feature.
                if get_prop imputed feature = JNull \<or> get_prop imputed feature = JUndefined
                then set_prop imputed feature (med feature) else imputed) p gs) f = get_prop p f"
  by (induction gs arbitrary: p) (auto simp: get_prop_set_prop)

lemma categorical_pass_sets:
  "get_prop (foldl (\<lambda>imputed feature.
                  if get_prop imputed feature = JNull \<or> get_prop imputed feature = JUndefined
                     \<or> get_prop imputed feature = JStr ''''
                  then set_prop imputed feature (JStr (mode feature)) else imputed) p gs) f
   = (if f \<in> set gs \<and> (get_prop p f = JNull \<or> get_prop p f = JUndefined \<or> get_prop p f = JStr '''')
      then JStr (mode f) else get_prop p f)"
proof (induction gs arbitrary: p)
  case Nil show ?case by simp
next
  case (Cons g gs)
  show ?case by (auto simp: Cons.IH get_prop_set_prop)
qed

text \<open>
  Claim C9. \<^verbatim>\<open>imputeMissingValues\<close> classifies the columns from the first record alone: the
  columns are the first record's properties outside the excluded names, and one is numerical
  exactly when the first record's value for it is a number. A column whose first value is
  \<^verbatim>\<open>null\<close>, \<^verbatim>\<open>undefined\<close> or a string is categorical for the whole data set: in every record a
  missing cell of that column (\<^verbatim>\<open>null\<close>, \<^verbatim>\<open>undefined\<close> or the empty string) is replaced by the
  column's mode, a string, and never by a median, and every other cell, numbers included,
  keeps its value.
\<close>

theorem imputation_classifies_by_first_record:
  assumes "data \<noteq> []"
  shows "identifyFeatureTypes data = identifyFeatureTypes [data ! 0] \<and>
    (\<forall>f. (f \<in> set (numericalFeatures (identifyFeatureTypes data)) \<longleftrightarrow>
            f \<in> fst ` set (data ! 0) \<and> f \<notin> set excludeFeatures \<and> is_number (get_prop (data ! 0) f)) \<and>
         (f \<in> set (categoricalFeatures (identifyFeatureTypes data)) \<longleftrightarrow>
            f \<in> fst ` set (data ! 0) \<and> f \<notin> set excludeFeatures \<and> \<not> is_number (get_prop (data ! 0) f))) \<and>
    length (imputeMissingValues cv data) = length data \<and>
    (\<forall>f i. f \<in> fst ` set (data ! 0) \<and> f \<notin> set excludeFeatures \<and> \<not> is_number (get_prop (data ! 0) f) \<and>
           i < length data \<longrightarrow>
       get_prop (imputeMissingValues cv data ! i) f
         = (if get_prop (data ! i) f = JNull \<or> get_prop (data ! i) f = JUndefined \<or> get_prop (data ! i) f = JStr ''''
            then JStr (column_mode cv data f) else get_prop (data ! i) f))"
proof (intro conjI allI impI)
  show "identifyFeatureTypes data = identifyFeatureTypes [data ! 0]"
    using identifyFeatureTypes_eq[OF assms] identifyFeatureTypes_eq[of "[data ! 0]"] by simp
  show "length (imputeMissingValues cv data) = length data"
    by (simp add: imputeMissingValues_def)
next
  fix f
  show "f \<in> set (numericalFeatures (identifyFeatureTypes data)) \<longleftrightarrow>
            f \<in> fst ` set (data ! 0) \<and> f \<notin> set excludeFeatures \<and> is_number (get_prop (data ! 0) f)"
    by (auto simp: identifyFeatureTypes_eq[OF assms])
  show "f \<in> set (categoricalFeatures (identifyFeatureTypes data)) \<longleftrightarrow>
            f \<in> fst ` set (data ! 0) \<and> f \<notin> set excludeFeatures \<and> \<not> is_number (get_prop (data ! 0) f)"
    by (auto simp: identifyFeatureTypes_eq[OF assms])
next
  fix f i
  assume h: "f \<in> fst ` set (data ! 0) \<and> f \<notin> set excludeFeatures \<and> \<not> is_number (get_prop (data ! 0) f) \<and>
           i < length data"
  let ?t = "identifyFeatureTypes data"
  have cat: "f \<in> set (categoricalFeatures ?t)" and num: "f \<notin> set (numericalFeatures ?t)"
    using h by (auto simp: identifyFeatureTypes_eq[OF assms])
  have "get_prop (impute_passenger cv data ?t (data ! i)) f
     = (if get_prop (data ! i) f = JNull \<or> get_prop (data ! i) f = JUndefined \<or> get_prop (data ! i) f = JStr ''''
            then JStr (column_mode cv data f) else get_prop (data ! i) f)"
    unfolding impute_passenger_def Let_def
    by (simp only: categorical_pass_sets numerical_pass_keeps[OF num] cat simp_thms if_True)
  then show "get_prop (imputeMissingValues cv data ! i) f
         = (if get_prop (data ! i) f = JNull \<or> get_prop (data ! i) f = JUndefined \<or> get_prop (data ! i) f = JStr ''''
            then JStr (column_mode cv data f) else get_prop (data ! i) f)"
    using h by (simp add: imputeMissingValues_def)
qed

theorem imputation_classifies_by_first_record_witness:
  "[[(''Age'', JNull), (''Sex'', JStr ''male'')], [(''Age'', JNum (Fin 22)), (''Sex'', JStr ''female'')]] \<noteq> [] \<and>
   ''Age'' \<in> fst ` set ([[(''Age'', JNull), (''Sex'', JStr ''male'')], [(''Age'', JNum (Fin 22)), (''Sex'', JStr ''female'')]] ! 0) \<and>
   ''Age'' \<notin> set excludeFeatures \<and>
   \<not> is_number (get_prop ([[(''Age'', JNull), (''Sex'', JStr ''male'')], [(''Age'', JNum (Fin 22)), (''Sex'', JStr ''female'')]] ! 0) ''Age'') \<and>
   (0::nat) < length [[(''Age'', JNull), (''Sex'', JStr ''male'')], [(''Age'', JNum (Fin 22)), (''Sex'', JStr ''female'')]] \<and>
   ''Age'' \<in> set (categoricalFeatures (identifyFeatureTypes
       [[(''Age'', JNull), (''Sex'', JStr ''male'')], [(''Age'', JNum (Fin 22)), (''Sex'', JStr ''female'')]])) \<and>
   column_mode \<lparr>number_to_string = (\<lambda>x. ''22''), string_to_number = (\<lambda>s. NaN)\<rparr>
       [[(''Age'', JNull), (''Sex'', JStr ''male'')], [(''Age'', JNum (Fin 22)), (''Sex'', JStr ''female'')]] ''Age'' = ''22'' \<and>
   get_prop (imputeMissingValues \<lparr>number_to_string = (\<lambda>x. ''22''), string_to_number = (\<lambda>s. NaN)\<rparr>
       [[(''Age'', JNull), (''Sex'', JStr ''male'')], [(''Age'', JNum (Fin 22)), (''Sex'', JStr ''female'')]] ! 0) ''Age''
     = JStr ''22'' \<and>
   get_prop (imputeMissingValues \<lparr>number_to_string = (\<lambda>x. ''22''), string_to_number = (\<lambda>s. NaN)\<rparr>
       [[(''Age'', JNull), (''Sex'', JStr ''male'')], [(''Age'', JNum (Fin 22)), (''Sex'', JStr ''female'')]] ! 1) ''Age''
     = JNum (Fin 22)"
proof -
  let ?data = "[[(''Age'', JNull), (''Sex'', JStr ''male'')], [(''Age'', JNum (Fin 22)), (''Sex'', JStr ''female'')]]"
  let ?cv = "\<lparr>number_to_string = (\<lambda>x. ''22''), string_to_number = (\<lambda>s. NaN)\<rparr>"
  have idx: "is_array_index ''22''"
    by (simp add: is_array_index_def is_digit_def decimal_value_def)
  have m: "column_mode ?cv ?data ''Age'' = ''22''"
    by (simp add: column_mode_def get_prop_def to_string_def object_prototype_names_def object_entries_def idx)
  have e: "''Age'' \<notin> set excludeFeatures" by (simp add: excludeFeatures_def)
  have g: "get_prop (?data ! 0) ''Age'' = JNull" "get_prop (?data ! 1) ''Age'' = JNum (Fin 22)"
    by (simp_all add: get_prop_def)
  have ne: "?data \<noteq> []" by simp
  have k: "''Age'' \<in> fst ` set (?data ! 0)" by simp
  have nn: "\<not> is_number (get_prop (?data ! 0) ''Age'')" by (simp only: g is_number.simps not_False_eq_True)
  note T = imputation_classifies_by_first_record[OF ne, of ?cv]
  have cat: "''Age'' \<in> set (categoricalFeatures (identifyFeatureTypes ?data))"
    using T k e nn by blast
  have imp: "get_prop (imputeMissingValues ?cv ?data ! i) ''Age''
         = (if get_prop (?data ! i) ''Age'' = JNull \<or> get_prop (?data ! i) ''Age'' = JUndefined
               \<or> get_prop (?data ! i) ''Age'' = JStr ''''
            then JStr (column_mode ?cv ?data ''Age'') else get_prop (?data ! i) ''Age'')"
    if "i < length ?data" for i
    using T k e nn that by blast
  have r0: "get_prop (imputeMissingValues ?cv ?data ! 0) ''Age'' = JStr ''22''"
    using imp[of 0] by (simp only: g m) simp
  have r1: "get_prop (imputeMissingValues ?cv ?data ! 1) ''Age'' = JNum (Fin 22)"
    using imp[of 1] by (simp only: g m) simp
  show ?thesis
    using ne k e nn cat m r0 r1 by simp
qed

section \<open>Verification: the seeding draw\<close>

lemma jsle_Fin: "jsle (Fin r) (Fin x) = (r \<le> x)"
  by (auto simp: jsle_def jseq_def)

lemma select_loop_positive:
  "\<forall>x\<in>set ps. 0 \<le> x \<Longrightarrow> c < r \<Longrightarrow> r \<le> c + sum_list ps \<Longrightarrow>
   \<exists>i<length ps. select_loop (Fin r) (map Fin ps) j (Fin c) = j + i \<and> 0 < ps ! i"
proof (induction ps arbitrary: j c)
  case Nil then show ?case by simp
next
  case (Cons a ps)
  show ?case
  proof (cases "r \<le> c + a")
    case True
    then have "0 < a" using Cons.prems(2) by simp
    then show ?thesis using True by (auto simp: jsle_Fin Let_def)
  next
    case False
    then have "c + a < r" "r \<le> (c + a) + sum_list ps" using Cons.prems(3) by simp_all
    then obtain i where "i < length ps" "select_loop (Fin r) (map Fin ps) (Suc j) (Fin (c + a)) = Suc j + i" "0 < ps ! i"
      using Cons.IH[of "c + a" "Suc j"] Cons.prems(1) by auto
    then show ?thesis using False by (auto simp: jsle_Fin Let_def intro!: exI[of _ "Suc i"])
  qed
qed

lemma euclideanDistance_zero_iff:
  assumes "length a = length b"
  shows "\<exists>v\<ge>0. euclideanDistance (map Fin a) (map Fin b) = Fin v \<and> (v = 0 \<longleftrightarrow> a = b)"
proof -
  let ?S = "\<Sum>i\<leftarrow>[0..<length a]. (a ! i - b ! i) * (a ! i - b ! i)"
  have nn: "\<forall>x\<in>set (map (\<lambda>i. (a ! i - b ! i) * (a ! i - b ! i)) [0..<length a]). 0 \<le> x" by auto
  have "?S = 0 \<longleftrightarrow> (\<forall>x\<in>set (map (\<lambda>i. (a ! i - b ! i) * (a ! i - b ! i)) [0..<length a]). x = 0)"
    by (intro sum_list_nonneg_eq_0_iff) auto
  also have "\<dots> \<longleftrightarrow> (\<forall>i<length a. a ! i = b ! i)" by auto
  also have "\<dots> \<longleftrightarrow> a = b" using assms by (auto simp: list_eq_iff_nth_eq)
  finally have z: "?S = 0 \<longleftrightarrow> a = b" .
  have "0 \<le> ?S" by (intro sum_list_nonneg) auto
  then show ?thesis
    using euclideanDistance_Fin[of a b] assms z by (intro exI[of _ "sqrt ?S"]) simp
qed

lemma min_distance_from:
  assumes "\<forall>c\<in>set cs. length c = length x" and "0 \<le> u"
  shows "\<exists>v\<ge>0. foldl (\<lambda>m centroid. jsmin m (euclideanDistance (map Fin x) centroid)) (Fin u) (map (map Fin) cs) = Fin v
            \<and> (v = 0 \<longleftrightarrow> u = 0 \<or> x \<in> set cs)"
  using assms
proof (induction cs arbitrary: u)
  case Nil then show ?case by simp
next
  case (Cons c cs)
  obtain w where w: "0 \<le> w" "euclideanDistance (map Fin x) (map Fin c) = Fin w" "w = 0 \<longleftrightarrow> x = c"
    using euclideanDistance_zero_iff[of x c] Cons.prems(1) by auto
  have m: "jsmin (Fin u) (Fin w) = Fin (min u w)" by (simp add: jsmin_def min_def)
  have "0 \<le> min u w" using w(1) Cons.prems(2) by simp
  then obtain v where v: "0 \<le> v"
     "foldl (\<lambda>m centroid. jsmin m (euclideanDistance (map Fin x) centroid)) (Fin (min u w)) (map (map Fin) cs) = Fin v"
     "v = 0 \<longleftrightarrow> min u w = 0 \<or> x \<in> set cs"
    using Cons.IH[of "min u w"] Cons.prems(1) by auto
  have "min u w = 0 \<longleftrightarrow> u = 0 \<or> x = c" using w(1,3) Cons.prems(2) by (auto simp: min_def)
  then show ?case using v w(2) m by auto
qed

lemma min_distance_from_infinity:
  assumes "\<forall>c\<in>set cs. length c = length x" and "cs \<noteq> []"
  shows "\<exists>v\<ge>0. foldl (\<lambda>m centroid. jsmin m (euclideanDistance (map Fin x) centroid)) PInf (map (map Fin) cs) = Fin v
            \<and> (v = 0 \<longleftrightarrow> x \<in> set cs)"
proof -
  obtain c cs' where cs: "cs = c # cs'" using assms(2) by (cases cs) auto
  obtain w where w: "0 \<le> w" "euclideanDistance (map Fin x) (map Fin c) = Fin w" "w = 0 \<longleftrightarrow> x = c"
    using euclideanDistance_zero_iff[of x c] assms(1) cs by auto
  have m: "jsmin PInf (Fin w) = Fin w" by (simp add: jsmin_def)
  obtain v where "0 \<le> v"
     "foldl (\<lambda>m centroid. jsmin m (euclideanDistance (map Fin x) centroid)) (Fin w) (map (map Fin) cs') = Fin v"
     "v = 0 \<longleftrightarrow> w = 0 \<or> x \<in> set cs'"
    using min_distance_from[of cs' x w] assms(1) cs w(1) by auto
  then show ?thesis using cs w m by auto
qed

lemma seed_distances_Fin:
  assumes "rectangular X d" and "\<forall>c\<in>set C. length c = d" and "C \<noteq> []"
  shows "\<exists>ds. seed_distances (map (map Fin) X) (map (map Fin) C) = map Fin ds \<and> length ds = length X \<and>
           (\<forall>j<length X. 0 \<le> ds ! j \<and> (ds ! j = 0 \<longleftrightarrow> X ! j \<in> set C))"
proof -
  have row: "\<exists>v\<ge>0. (let minDistance = foldl (\<lambda>m centroid. jsmin m (euclideanDistance (map Fin x) centroid)) PInf (map (map Fin) C)
                  in jsmul minDistance minDistance) = Fin v \<and> (v = 0 \<longleftrightarrow> x \<in> set C)"
    if "x \<in> set X" for x
  proof -
    have "length x = d" using assms(1) that by (rule rectangular_nth)
    then obtain v where "0 \<le> v"
      "foldl (\<lambda>m centroid. jsmin m (euclideanDistance (map Fin x) centroid)) PInf (map (map Fin) C) = Fin v"
      "v = 0 \<longleftrightarrow> x \<in> set C"
      using min_distance_from_infinity[of C x] assms(2,3) by auto
    then show ?thesis by (intro exI[of _ "v * v"]) simp
  qed
  have "\<forall>x\<in>set X. \<exists>v. 0 \<le> v \<and> (let minDistance = foldl (\<lambda>m centroid. jsmin m (euclideanDistance (map Fin x) centroid)) PInf (map (map Fin) C)
                  in jsmul minDistance minDistance) = Fin v \<and> (v = 0 \<longleftrightarrow> x \<in> set C)"
    using row by blast
  then obtain f where f: "\<forall>x\<in>set X. 0 \<le> f x \<and> (let minDistance = foldl (\<lambda>m centroid. jsmin m (euclideanDistance (map Fin x) centroid)) PInf (map (map Fin) C)
                  in jsmul minDistance minDistance) = Fin (f x) \<and> (f x = 0 \<longleftrightarrow> x \<in> set C)"
    using bchoice[of "set X" "\<lambda>x v. 0 \<le> v \<and> (let minDistance = foldl (\<lambda>m centroid. jsmin m (euclideanDistance (map Fin x) centroid)) PInf (map (map Fin) C)
                  in jsmul minDistance minDistance) = Fin v \<and> (v = 0 \<longleftrightarrow> x \<in> set C)"] by blast
  have "seed_distances (map (map Fin) X) (map (map Fin) C) = map Fin (map f X)"
    unfolding seed_distances_def map_map
    by (rule map_cong[OF refl]) (use f in \<open>simp add: comp_def\<close>)
  moreover have "\<forall>j<length X. 0 \<le> map f X ! j \<and> (map f X ! j = 0 \<longleftrightarrow> X ! j \<in> set C)"
    using f by simp
  ultimately show ?thesis by (intro exI[of _ "map f X"]) simp
qed

lemma seed_step_new_position:
  assumes rect: "rectangular X d" and ok: "random_ok rng" and pos: "\<forall>i. 0 < rng i"
    and inv: "seeded X s" and room: "length (picks s) < card (set X)"
  shows "\<exists>s'. seed_step rng (map (map Fin) X) s = Inr s' \<and> seeded X s' \<and> length (picks s') = Suc (length (picks s))"
proof -
  let ?data = "map (map Fin) X"
  define C where "C = map (\<lambda>i. X ! nat i) (picks s)"
  have in_range: "\<forall>i\<in>set (picks s). 0 \<le> i \<and> i < int (length X)" and dist: "distinct C" and ne: "C \<noteq> []"
    using inv by (simp_all add: seeded_def C_def)
  have ch: "chosen s = map (map Fin) C"
    using inv by (simp add: seeded_def C_def)
  have Csub: "set C \<subseteq> set X"
    using in_range by (auto simp: C_def)
  have Clen: "\<forall>c\<in>set C. length c = d"
    using Csub rectangular_nth[OF rect] by blast
  obtain ds where ds: "seed_distances ?data (map (map Fin) C) = map Fin ds" "length ds = length X"
      "\<forall>j<length X. 0 \<le> ds ! j \<and> (ds ! j = 0 \<longleftrightarrow> X ! j \<in> set C)"
    using seed_distances_Fin[OF rect Clen ne] by blast
  have "card (set C) \<le> length C" by (rule card_length)
  then have "card (set C) < card (set X)" using room by (simp add: C_def)
  then have "set C \<noteq> set X" by auto
  then obtain x where x: "x \<in> set X" "x \<notin> set C" using Csub by auto
  then obtain j where j: "j < length X" "X ! j = x" by (auto simp: in_set_conv_nth)
  have nn: "\<forall>y\<in>set ds. 0 \<le> y" using ds(2,3) by (auto simp: in_set_conv_nth)
  have "ds ! j \<noteq> 0" using ds(3) j x by auto
  then have "\<not> (\<forall>y\<in>set ds. y = 0)" using j(1) ds(2) by (metis nth_mem)
  then have "sum_list ds \<noteq> 0" using nn sum_list_nonneg_eq_0_iff[of ds] by blast
  moreover have "0 \<le> sum_list ds" using nn by (intro sum_list_nonneg) auto
  ultimately have T: "0 < sum_list ds" by simp
  let ?T = "sum_list ds"
  have total: "foldl jsadd (Fin 0) (map Fin ds) = Fin ?T"
    using foldl_jsadd_Fin[of 0 ds] by simp
  let ?ps = "map (\<lambda>x. x / ?T) ds"
  have probs: "map (\<lambda>distance. jsdiv distance (Fin ?T)) (map Fin ds) = map Fin ?ps"
    using T by simp
  have r: "0 < rng (pos s)" "rng (pos s) < 1" using ok pos by (simp_all add: random_ok_def)
  have sum1: "sum_list ?ps = 1" using T by (simp add: sum_list_divide_const)
  have psnn: "\<forall>x\<in>set ?ps. 0 \<le> x" using nn T by auto
  obtain i where i: "i < length ?ps" "select_loop (Fin (rng (pos s))) (map Fin ?ps) 0 (Fin 0) = 0 + i" "0 < ?ps ! i"
    using select_loop_positive[OF psnn, of 0 "rng (pos s)" 0] r sum1 by auto
  have iX: "i < length X" using i(1) ds(2) by simp
  have "ds ! i \<noteq> 0" using i(3) iX ds(2) by auto
  then have new: "X ! i \<notin> set C" using ds(3) iX by auto
  have copy: "copy_row ?data (int i) = Inr (map Fin (X ! i))" using iX by (simp add: copy_row_def)
  let ?s' = "\<lparr>chosen = chosen s @ [map Fin (X ! i)], picks = picks s @ [int i], pos = Suc (pos s)\<rparr>"
  have sel: "select_loop (Fin (rng (pos s))) (map Fin ?ps) 0 (Fin 0) = i" using i(2) by simp
  have step: "seed_step rng ?data s = Inr ?s'"
    unfolding seed_step_def Let_def ch ds(1) total probs sel copy
    using T by (simp add: jseq_def)
  have "seeded X ?s'"
    using in_range iX dist new inv by (simp add: seeded_def C_def)
  then show ?thesis using step by (intro exI[of _ ?s']) simp
qed

lemma repeat_seed_steps:
  assumes rect: "rectangular X d" and ok: "random_ok rng" and pos: "\<forall>i. 0 < rng i"
  shows "seeded X s \<Longrightarrow> length (picks s) + m \<le> card (set X) \<Longrightarrow>
    \<exists>s'. repeat_steps m (seed_step rng (map (map Fin) X)) s = Inr s' \<and> seeded X s' \<and>
         length (picks s') = length (picks s) + m"
proof (induction m arbitrary: s)
  case 0 then show ?case by simp
next
  case (Suc m)
  have "length (picks s) < card (set X)" using Suc.prems(2) by simp
  then obtain s1 where s1: "seed_step rng (map (map Fin) X) s = Inr s1" "seeded X s1"
      "length (picks s1) = Suc (length (picks s))"
    using seed_step_new_position[OF rect ok pos Suc.prems(1)] by blast
  obtain s' where "repeat_steps m (seed_step rng (map (map Fin) X)) s1 = Inr s'" "seeded X s'"
      "length (picks s') = length (picks s1) + m"
    using Suc.IH[OF s1(2)] Suc.prems(2) s1(3) by auto
  then show ?case using s1 by auto
qed

text \<open>
  When every draw of the random source is strictly positive, the seeding of \<open>k\<close> centroids
  from a finite rectangular pool with at least \<open>k\<close> different rows returns \<open>k\<close> different
  rows: a draw \<open>r > 0\<close> stops the cumulative scan at a row of positive probability, which
  differs from every centroid chosen so far. Only the draw \<open>r = 0\<close> can stop it at a row of
  probability 0.
\<close>

lemma seeding_distinct_for_positive_draws:
  assumes rect: "rectangular X d" and ok: "random_ok rng" and pos: "\<forall>i. 0 < rng i"
    and k: "1 \<le> k" and enough: "nat k \<le> card (set X)"
  shows "\<exists>s. seed_centroids rng p (map (map Fin) X) k = Inr s \<and> length (picks s) = nat k \<and>
             distinct (picks s) \<and> distinct (map (\<lambda>i. X ! nat i) (picks s)) \<and>
             chosen s = map (\<lambda>i. map Fin (X ! nat i)) (picks s)"
proof -
  have "0 < card (set X)" using k enough by arith
  then have ne: "X \<noteq> []" by auto
  let ?data = "map (map Fin) X"
  let ?f = "random_index rng p (length ?data)"
  have f: "0 \<le> ?f" "?f < int (length X)"
    using random_index_range[OF ok, of "length X" p] ne by simp_all
  then have copy: "copy_row ?data ?f = Inr (map Fin (X ! nat ?f))" by (simp add: copy_row_def)
  let ?s0 = "\<lparr>chosen = [map Fin (X ! nat ?f)], picks = [?f], pos = Suc p\<rparr>"
  have s0: "seeded X ?s0" using f by (simp add: seeded_def)
  have "length (picks ?s0) + nat (k - 1) \<le> card (set X)" using k enough by simp
  then obtain s where s: "repeat_steps (nat (k - 1)) (seed_step rng ?data) ?s0 = Inr s" "seeded X s"
      "length (picks s) = length (picks ?s0) + nat (k - 1)"
    using repeat_seed_steps[OF rect ok pos s0] by blast
  have "length (picks s) = nat k" using s(3) k by simp
  moreover have "distinct (map (\<lambda>i. X ! nat i) (picks s))" using s(2) by (simp add: seeded_def)
  moreover then have "distinct (picks s)" by (simp add: distinct_map)
  moreover have "chosen s = map (\<lambda>i. map Fin (X ! nat i)) (picks s)" using s(2) by (simp add: seeded_def)
  ultimately show ?thesis
    using s(1) copy by (simp add: seed_centroids_def Let_def)
qed

text \<open>
  Claim C4, at a failing input. On the pool \<open>[[0], [1]]\<close> (two rows at distinct positions,
  \<open>k = 2\<close>) with \<^verbatim>\<open>Math.random()\<close> returning 0, the seeding picks row 0 first, gives it
  probability 0 for the second draw, and picks it again: the draw \<open>r = 0\<close> passes the test
  \<^verbatim>\<open>r <= cumulativeProb\<close> at \<open>j = 0\<close>.
\<close>

theorem seeding_picks_row_0_twice:
  "seed_centroids (\<lambda>_. 0) 0 [[Fin 0], [Fin 1]] 2
     = Inr \<lparr>chosen = [[Fin 0], [Fin 0]], picks = [0, 0], pos = 2\<rparr> \<and>
   initializeCentroids (\<lambda>_. 0) 0 [[Fin 0], [Fin 1]] 2 = Inr ([[Fin 0], [Fin 0]], 2)"
  by (simp add: initializeCentroids_def seed_centroids_def seed_step_def seed_distances_def random_index_def
        copy_row_def euclideanDistance_def rd_def jssub_def jsmin_def jseq_def jsle_def Let_def numeral_2_eq_2)

end
